theory Spec2Isabelle
  imports Main
begin

section \<open>Pointers, kernel heaps and abnormal outcomes\<close>

text \<open>
  A C pointer is an address or \<open>NULL\<close>: \<open>addr option\<close>, with \<open>None\<close> for \<open>NULL\<close>.
  Every kind of dynamically created kernel object (PCBs, duplicated names, sleep locks,
  semaphores, condition variables, open-file handles) lives in a heap of its own: a
  finite list of cells, a cell being \<open>None\<close> once the object has been freed.
  An allocation hands out a cell that is not in use (the next one).
\<close>

type_synonym addr = nat

type_synonym 'a heap = "'a option list"

definition hlookup :: "'a heap \<Rightarrow> addr \<Rightarrow> 'a option" where
  "hlookup h a = (if a < length h then h ! a else None)"

definition hupdate :: "'a heap \<Rightarrow> addr \<Rightarrow> 'a \<Rightarrow> 'a heap" where
  "hupdate h a v = h[a := Some v]"

definition hfree :: "'a heap \<Rightarrow> addr \<Rightarrow> 'a heap" where
  "hfree h a = h[a := None]"

text \<open>
  What a call does when it does not return normally: \<open>Panic\<close> is a failed \<open>KASSERT\<close>,
  \<open>Fault\<close> is the use of a \<open>NULL\<close> or dangling pointer or of an index outside an
  array, \<open>Blocked\<close> is a thread put to sleep on a lock, semaphore or condition variable
  that nothing in the call itself will release, \<open>Diverges\<close> is a loop that never exits.
\<close>

datatype fault = Panic | Fault | Blocked | Diverges

section \<open>Build configuration\<close>

text \<open>
  \<open>proc.c\<close> uses three macros that are defined in headers outside this file:
  \<open>PID_MIN\<close> and \<open>OPEN_MAX\<close> (limits) and \<open>USE_SEMAPHORE_FOR_WAITPID\<close> (which of the
  two rendezvous variants is compiled). They are parameters of the model.
  \<open>OPT_SHELL\<close> is taken as set: every operation below is compiled only then.
\<close>

record config =
  PID_MIN :: int
  OPEN_MAX :: nat
  USE_SEMAPHORE_FOR_WAITPID :: bool

definition MAX_PROC :: int where
  "MAX_PROC = 100"

section \<open>Data model\<close>

text \<open>
  \<open>struct openfile\<close>: the fields \<open>proc.c\<close> touches. The reference count is a
  mathematical integer (its C type is declared outside this file).
\<close>

record openfile =
  vn :: "addr option"
  countRef :: int
  of_lock :: "addr option"

text \<open>
  \<open>struct proc\<close>: the fields \<open>proc.c\<close> touches. \<open>fileTable\<close> is an array of
  \<open>OPEN_MAX\<close> handle pointers, read and written only at indices below \<open>OPEN_MAX\<close>.
\<close>

record proc =
  p_name :: "addr option"
  p_numthreads :: nat
  p_addrspace :: "addr option"
  p_cwd :: "addr option"
  p_exited :: int
  parent_proc :: "addr option"
  ft_lock :: "addr option"
  p_pid :: int
  p_status :: int
  p_sem :: "addr option"
  p_cv :: "addr option"
  p_cv_lock :: "addr option"
  fileTable :: "nat \<Rightarrow> addr option"

text \<open>
  \<open>struct _processTable\<close>: \<open>slots i\<close> is \<open>processTable.proc[i]\<close>, an array of
  \<open>MAX_PROC + 1\<close> PCB pointers indexed from 0, slot 0 unused.
\<close>

record processTable_struct =
  slots :: "nat \<Rightarrow> addr option"
  last_i :: int
  is_full :: bool

text \<open>Calls into the external layers (file system, virtual memory, spinlocks), in order.\<close>

datatype event =
    VFS_CLOSE addr addr
  | VOP_INCREF addr
  | VOP_DECREF addr
  | AS_DESTROY addr
  | AS_DEACTIVATE
  | SPINLOCK_INIT addr
  | SPINLOCK_CLEANUP addr

text \<open>
  The kernel state. \<open>VFS_CLOSE h v\<close> in the trace is the call \<open>vfs_close(of->vn)\<close>
  made for handle \<open>h\<close> with node \<open>v\<close>. A sleep lock is its \<open>held\<close> flag, a semaphore
  its count. \<open>alloc_fail\<close> decides the coming allocations in order: \<open>True\<close> makes
  the allocation return \<open>NULL\<close>; once the list is used up every allocation succeeds.
\<close>

record kernel =
  processTable :: processTable_struct
  ft_copy_lock :: "addr option"
  kproc :: "addr option"
  curproc :: "addr option"
  procs :: "proc heap"
  names :: "string heap"
  locks :: "bool heap"
  sems :: "nat heap"
  cvs :: "unit heap"
  openfiles :: "openfile heap"
  trace :: "event list"
  alloc_fail :: "bool list"

section \<open>External primitives\<close>

text \<open>
  Modelled from the spec: the allocator and the synchronisation primitives are external
  collaborators (``busy-wait lock, blocking lock, condition variable, counting
  semaphore: consumed, not implemented, by this core''). An allocation may fail and
  return \<open>NULL\<close>; a blocking lock is taken when free and blocks when held; a counting
  semaphore blocks at zero; a condition-variable signal with nobody waiting is lost.
\<close>

definition next_alloc_fails :: "kernel \<Rightarrow> bool \<times> kernel" where
  "next_alloc_fails s =
     ((case alloc_fail s of [] \<Rightarrow> False | b # bs \<Rightarrow> b), s\<lparr>alloc_fail := tl (alloc_fail s)\<rparr>)"

definition kmalloc_proc :: "proc \<Rightarrow> kernel \<Rightarrow> addr option \<times> kernel" where
  "kmalloc_proc v s =
     (let (f, s1) = next_alloc_fails s in
      if f then (None, s1)
      else (Some (length (procs s1)), s1\<lparr>procs := procs s1 @ [Some v]\<rparr>))"

definition kstrdup :: "string \<Rightarrow> kernel \<Rightarrow> addr option \<times> kernel" where
  "kstrdup v s =
     (let (f, s1) = next_alloc_fails s in
      if f then (None, s1)
      else (Some (length (names s1)), s1\<lparr>names := names s1 @ [Some v]\<rparr>))"

definition lock_create :: "kernel \<Rightarrow> addr option \<times> kernel" where
  "lock_create s =
     (let (f, s1) = next_alloc_fails s in
      if f then (None, s1)
      else (Some (length (locks s1)), s1\<lparr>locks := locks s1 @ [Some False]\<rparr>))"

definition sem_create :: "nat \<Rightarrow> kernel \<Rightarrow> addr option \<times> kernel" where
  "sem_create n s =
     (let (f, s1) = next_alloc_fails s in
      if f then (None, s1)
      else (Some (length (sems s1)), s1\<lparr>sems := sems s1 @ [Some n]\<rparr>))"

definition cv_create :: "kernel \<Rightarrow> addr option \<times> kernel" where
  "cv_create s =
     (let (f, s1) = next_alloc_fails s in
      if f then (None, s1)
      else (Some (length (cvs s1)), s1\<lparr>cvs := cvs s1 @ [Some ()]\<rparr>))"

definition kfree_proc :: "addr option \<Rightarrow> kernel \<Rightarrow> fault + kernel" where
  "kfree_proc p s =
     (case p of None \<Rightarrow> Inr s
      | Some a \<Rightarrow> (case hlookup (procs s) a of None \<Rightarrow> Inl Fault
                   | Some _ \<Rightarrow> Inr (s\<lparr>procs := hfree (procs s) a\<rparr>)))"

definition kfree_name :: "addr option \<Rightarrow> kernel \<Rightarrow> fault + kernel" where
  "kfree_name p s =
     (case p of None \<Rightarrow> Inr s
      | Some a \<Rightarrow> (case hlookup (names s) a of None \<Rightarrow> Inl Fault
                   | Some _ \<Rightarrow> Inr (s\<lparr>names := hfree (names s) a\<rparr>)))"

definition lock_acquire :: "addr option \<Rightarrow> kernel \<Rightarrow> fault + kernel" where
  "lock_acquire l s =
     (case l of None \<Rightarrow> Inl Fault
      | Some a \<Rightarrow> (case hlookup (locks s) a of None \<Rightarrow> Inl Fault
                   | Some held \<Rightarrow> if held then Inl Blocked
                                  else Inr (s\<lparr>locks := hupdate (locks s) a True\<rparr>)))"

definition lock_release :: "addr option \<Rightarrow> kernel \<Rightarrow> fault + kernel" where
  "lock_release l s =
     (case l of None \<Rightarrow> Inl Fault
      | Some a \<Rightarrow> (case hlookup (locks s) a of None \<Rightarrow> Inl Fault
                   | Some held \<Rightarrow> if held then Inr (s\<lparr>locks := hupdate (locks s) a False\<rparr>)
                                  else Inl Panic))"

definition lock_destroy :: "addr option \<Rightarrow> kernel \<Rightarrow> fault + kernel" where
  "lock_destroy l s =
     (case l of None \<Rightarrow> Inl Fault
      | Some a \<Rightarrow> (case hlookup (locks s) a of None \<Rightarrow> Inl Fault
                   | Some held \<Rightarrow> if held then Inl Panic
                                  else Inr (s\<lparr>locks := hfree (locks s) a\<rparr>)))"

definition sem_destroy :: "addr option \<Rightarrow> kernel \<Rightarrow> fault + kernel" where
  "sem_destroy m s =
     (case m of None \<Rightarrow> Inl Fault
      | Some a \<Rightarrow> (case hlookup (sems s) a of None \<Rightarrow> Inl Fault
                   | Some _ \<Rightarrow> Inr (s\<lparr>sems := hfree (sems s) a\<rparr>)))"

definition cv_destroy :: "addr option \<Rightarrow> kernel \<Rightarrow> fault + kernel" where
  "cv_destroy c s =
     (case c of None \<Rightarrow> Inl Fault
      | Some a \<Rightarrow> (case hlookup (cvs s) a of None \<Rightarrow> Inl Fault
                   | Some _ \<Rightarrow> Inr (s\<lparr>cvs := hfree (cvs s) a\<rparr>)))"

text \<open>\<open>P\<close> and \<open>V\<close> on a counting semaphore.\<close>

definition sem_P :: "addr option \<Rightarrow> kernel \<Rightarrow> fault + kernel" where
  "sem_P m s =
     (case m of None \<Rightarrow> Inl Fault
      | Some a \<Rightarrow> (case hlookup (sems s) a of None \<Rightarrow> Inl Fault
                   | Some n \<Rightarrow> if n = 0 then Inl Blocked
                               else Inr (s\<lparr>sems := hupdate (sems s) a (n - 1)\<rparr>)))"

definition sem_V :: "addr option \<Rightarrow> kernel \<Rightarrow> fault + kernel" where
  "sem_V m s =
     (case m of None \<Rightarrow> Inl Fault
      | Some a \<Rightarrow> (case hlookup (sems s) a of None \<Rightarrow> Inl Fault
                   | Some n \<Rightarrow> Inr (s\<lparr>sems := hupdate (sems s) a (n + 1)\<rparr>)))"

text \<open>
  \<open>cv_wait\<close> puts the caller to sleep until a later signal; \<open>cv_signal\<close> wakes a
  sleeper if there is one and is otherwise without effect.
\<close>

definition cv_wait :: "addr option \<Rightarrow> kernel \<Rightarrow> fault + kernel" where
  "cv_wait c s =
     (case c of None \<Rightarrow> Inl Fault
      | Some a \<Rightarrow> (case hlookup (cvs s) a of None \<Rightarrow> Inl Fault
                   | Some _ \<Rightarrow> Inl Blocked))"

definition cv_signal :: "addr option \<Rightarrow> kernel \<Rightarrow> fault + kernel" where
  "cv_signal c s =
     (case c of None \<Rightarrow> Inl Fault
      | Some a \<Rightarrow> (case hlookup (cvs s) a of None \<Rightarrow> Inl Fault
                   | Some _ \<Rightarrow> Inr s))"

text \<open>Sequencing of calls that may fail to return.\<close>

definition andthen :: "fault + 'a \<Rightarrow> ('a \<Rightarrow> fault + 'b) \<Rightarrow> fault + 'b" where
  "andthen m f = (case m of Inl e \<Rightarrow> Inl e | Inr x \<Rightarrow> f x)"

section \<open>Process table\<close>

text \<open>\<open>is_proc_table_full\<close>: the flag, read under the table's spinlock.\<close>

definition is_proc_table_full :: "kernel \<Rightarrow> bool" where
  "is_proc_table_full s = is_full (processTable s)"

text \<open>
  \<open>proc_search_pid\<close>: the bounds check, the read of the slot, and the assertion that
  a process found there carries the identifier it was looked up by.
\<close>

definition proc_search_pid :: "config \<Rightarrow> int \<Rightarrow> kernel \<Rightarrow> fault + addr option" where
  "proc_search_pid cfg pid s =
     (if pid < PID_MIN cfg \<or> pid > MAX_PROC then Inr None
      else if pid < 0 then Inl Fault
      else (case slots (processTable s) (nat pid) of
              None \<Rightarrow> Inr None
            | Some a \<Rightarrow> (case hlookup (procs s) a of
                           None \<Rightarrow> Inl Fault
                         | Some pr \<Rightarrow> if p_pid pr = pid then Inr (Some a) else Inl Panic)))"

text \<open>
  The scan of \<open>proc_init_waitpid\<close>: \<open>while (i != last_i)\<close>, with the test of slot \<open>i\<close>
  and the circular increment. It yields the free index it stops at, or \<open>None\<close> when
  \<open>i\<close> reaches \<open>last_i\<close>. The loop need not terminate (it never does when \<open>last_i\<close>
  is 0 and no slot is free), so it is a partial function.
\<close>

partial_function (option) proc_init_waitpid_scan ::
  "(nat \<Rightarrow> addr option) \<Rightarrow> int \<Rightarrow> int \<Rightarrow> (fault + int option) option" where
  "proc_init_waitpid_scan tbl stop i =
     (if i = stop then Some (Inr None)
      else if i < 0 \<or> MAX_PROC < i then Some (Inl Fault)
      else if tbl (nat i) = None then Some (Inr (Some i))
      else proc_init_waitpid_scan tbl stop (if i + 1 > MAX_PROC then 1 else i + 1))"

text \<open>
  \<open>proc_init_waitpid\<close>: the identifier is zeroed and the scan runs from the slot after
  \<open>last_i\<close>; a free index sets the slot, \<open>last_i\<close> and the identifier. Then the
  identifier is tested, as \<open>if (proc->p_pid==0)\<close> does: when it is 0 (no free index,
  or the free index 0) the full flag is set and the function returns; otherwise the
  status is zeroed and the rendezvous primitive is created.
\<close>

definition proc_init_waitpid :: "config \<Rightarrow> addr \<Rightarrow> kernel \<Rightarrow> fault + kernel" where
  "proc_init_waitpid cfg p s =
     (case hlookup (procs s) p of
        None \<Rightarrow> Inl Fault
      | Some pr \<Rightarrow>
          let pt = processTable s;
              i = (if last_i pt + 1 > MAX_PROC then 1 else last_i pt + 1)
          in (case proc_init_waitpid_scan (slots pt) (last_i pt) i of
                None \<Rightarrow> Inl Diverges
              | Some (Inl e) \<Rightarrow> Inl e
              | Some (Inr None) \<Rightarrow>
                  Inr (s\<lparr>procs := hupdate (procs s) p (pr\<lparr>p_pid := 0\<rparr>),
                         processTable := pt\<lparr>is_full := True\<rparr>\<rparr>)
              | Some (Inr (Some j)) \<Rightarrow>
                  let s1 = s\<lparr>processTable := pt\<lparr>slots := (slots pt)(nat j := Some p), last_i := j\<rparr>\<rparr>
                  in if j = 0 then
                       Inr (s1\<lparr>procs := hupdate (procs s1) p (pr\<lparr>p_pid := j\<rparr>),
                              processTable := (processTable s1)\<lparr>is_full := True\<rparr>\<rparr>)
                     else if USE_SEMAPHORE_FOR_WAITPID cfg then
                       (let (m, s2) = sem_create 0 s1
                        in Inr (s2\<lparr>procs := hupdate (procs s2) p
                                   (pr\<lparr>p_pid := j, p_status := 0, p_sem := m\<rparr>)\<rparr>))
                     else
                       (let (c, s2) = cv_create s1; (l, s3) = lock_create s2
                        in Inr (s3\<lparr>procs := hupdate (procs s3) p
                                   (pr\<lparr>p_pid := j, p_status := 0, p_cv := c, p_cv_lock := l\<rparr>)\<rparr>))))"

text \<open>
  \<open>proc_end_waitpid\<close>: asserts the identifier's range, clears the slot and the full
  flag, and destroys the rendezvous primitive.
\<close>

definition proc_end_waitpid :: "config \<Rightarrow> addr \<Rightarrow> kernel \<Rightarrow> fault + kernel" where
  "proc_end_waitpid cfg p s =
     (case hlookup (procs s) p of
        None \<Rightarrow> Inl Fault
      | Some pr \<Rightarrow>
          let i = p_pid pr in
          if \<not> (i > 0 \<and> i \<le> MAX_PROC) then Inl Panic
          else
            let pt = processTable s;
                s1 = s\<lparr>processTable := pt\<lparr>slots := (slots pt)(nat i := None), is_full := False\<rparr>\<rparr>
            in if USE_SEMAPHORE_FOR_WAITPID cfg then sem_destroy (p_sem pr) s1
               else andthen (cv_destroy (p_cv pr) s1) (lock_destroy (p_cv_lock pr)))"

text \<open>
  \<open>proc_rm_parent_link\<close>: one iteration of the \<open>for\<close> loop, at table index \<open>i\<close>,
  then the loop from \<open>i\<close> to \<open>MAX_PROC\<close>, then the function with its assertion.
\<close>

definition proc_rm_parent_link_step :: "int \<Rightarrow> int \<Rightarrow> kernel \<Rightarrow> fault + kernel" where
  "proc_rm_parent_link_step pid i s =
     (if i < 0 \<or> MAX_PROC < i then Inl Fault
      else (case slots (processTable s) (nat i) of
              None \<Rightarrow> Inr s
            | Some a \<Rightarrow>
                (case hlookup (procs s) a of
                   None \<Rightarrow> Inl Fault
                 | Some pr \<Rightarrow>
                     (case parent_proc pr of
                        None \<Rightarrow> Inr s
                      | Some q \<Rightarrow>
                          (case hlookup (procs s) q of
                             None \<Rightarrow> Inl Fault
                           | Some qr \<Rightarrow>
                               if p_pid qr = pid
                               then Inr (s\<lparr>procs := hupdate (procs s) a (pr\<lparr>parent_proc := None\<rparr>)\<rparr>)
                               else Inr s)))))"

function proc_rm_parent_link_loop :: "int \<Rightarrow> int \<Rightarrow> kernel \<Rightarrow> fault + kernel" where
  "proc_rm_parent_link_loop pid i s =
     (if i \<le> MAX_PROC then
        (case proc_rm_parent_link_step pid i s of
           Inl e \<Rightarrow> Inl e
         | Inr s' \<Rightarrow> proc_rm_parent_link_loop pid (i + 1) s')
      else Inr s)"
  by pat_completeness auto
termination
  by (relation "measure (\<lambda>(pid, i, s). nat (MAX_PROC + 1 - i))") auto

declare proc_rm_parent_link_loop.simps [simp del]

definition proc_rm_parent_link :: "config \<Rightarrow> int \<Rightarrow> kernel \<Rightarrow> fault + kernel" where
  "proc_rm_parent_link cfg pid s =
     (if pid < PID_MIN cfg \<or> pid > MAX_PROC then Inl Panic
      else proc_rm_parent_link_loop pid 1 s)"

section \<open>Creation and destruction of a process\<close>

text \<open>Reading and writing a PCB through a pointer.\<close>

definition proc_read :: "addr \<Rightarrow> kernel \<Rightarrow> fault + proc" where
  "proc_read a s = (case hlookup (procs s) a of None \<Rightarrow> Inl Fault | Some pr \<Rightarrow> Inr pr)"

definition proc_write :: "addr \<Rightarrow> (proc \<Rightarrow> proc) \<Rightarrow> kernel \<Rightarrow> fault + kernel" where
  "proc_write a f s =
     (case hlookup (procs s) a of
        None \<Rightarrow> Inl Fault
      | Some pr \<Rightarrow> Inr (s\<lparr>procs := hupdate (procs s) a (f pr)\<rparr>))"

definition emit :: "event \<Rightarrow> kernel \<Rightarrow> kernel" where
  "emit e s = s\<lparr>trace := trace s @ [e]\<rparr>"

text \<open>
  The block \<open>kmalloc\<close> returns is not initialised; \<open>proc_create\<close> and
  \<open>proc_init_waitpid\<close> write every field they later read, so the model starts the
  block at zero.
\<close>

definition fresh_proc :: proc where
  "fresh_proc = \<lparr>p_name = None, p_numthreads = 0, p_addrspace = None, p_cwd = None,
     p_exited = 0, parent_proc = None, ft_lock = None, p_pid = 0, p_status = 0,
     p_sem = None, p_cv = None, p_cv_lock = None, fileTable = (\<lambda>fd. None)\<rparr>"

text \<open>
  \<open>proc_create\<close>: the PCB, the copy of the name, the spinlock, the empty fields, the
  file-table lock, the registration, and the rollback when the table's full flag is
  set after it. The result is the new process, or \<open>NULL\<close>.
\<close>

definition proc_create :: "config \<Rightarrow> string \<Rightarrow> kernel \<Rightarrow> fault + (addr option \<times> kernel)" where
  "proc_create cfg name s =
     (let (p, s1) = kmalloc_proc fresh_proc s in
      case p of
        None \<Rightarrow> Inr (None, s1)
      | Some a \<Rightarrow>
          let (nm, s2) = kstrdup name s1 in
          (case nm of
             None \<Rightarrow> andthen (kfree_proc (Some a) s2) (\<lambda>s3. Inr (None, s3))
           | Some n \<Rightarrow>
               andthen (proc_write a (\<lambda>pr. pr\<lparr>p_name := nm, p_numthreads := 0\<rparr>) s2) (\<lambda>s3.
               andthen (proc_write a (\<lambda>pr. pr\<lparr>p_addrspace := None, p_cwd := None,
                                              p_exited := 0, parent_proc := None\<rparr>)
                          (emit (SPINLOCK_INIT a) s3)) (\<lambda>s4.
               let (l, s5) = lock_create s4 in
               andthen (proc_write a (\<lambda>pr. pr\<lparr>ft_lock := l\<rparr>) s5) (\<lambda>s6.
               andthen (proc_init_waitpid cfg a s6) (\<lambda>s7.
               if is_proc_table_full s7 then
                 andthen (proc_read a s7) (\<lambda>pr.
                 andthen (kfree_name (p_name pr) s7) (\<lambda>s8.
                 andthen (lock_destroy (ft_lock pr) (emit (SPINLOCK_CLEANUP a) s8)) (\<lambda>s9.
                 andthen (kfree_proc (Some a) s9) (\<lambda>s10. Inr (None, s10)))))
               else
                 andthen (proc_write a (\<lambda>pr. pr\<lparr>fileTable :=
                            (\<lambda>fd. if fd < OPEN_MAX cfg then None else fileTable pr fd)\<rparr>) s7)
                   (\<lambda>s8. Inr (Some a, s8))))))))"

text \<open>\<open>proc_getas\<close> and \<open>proc_setas\<close>: the address space of the current process.\<close>

definition proc_getas :: "kernel \<Rightarrow> fault + addr option" where
  "proc_getas s =
     (case curproc s of
        None \<Rightarrow> Inr None
      | Some a \<Rightarrow> andthen (proc_read a s) (\<lambda>pr. Inr (p_addrspace pr)))"

definition proc_setas :: "addr option \<Rightarrow> kernel \<Rightarrow> fault + (addr option \<times> kernel)" where
  "proc_setas newas s =
     (case curproc s of
        None \<Rightarrow> Inl Panic
      | Some a \<Rightarrow>
          andthen (proc_read a s) (\<lambda>pr.
          andthen (proc_write a (\<lambda>pr. pr\<lparr>p_addrspace := newas\<rparr>) s) (\<lambda>s1.
          Inr (p_addrspace pr, s1))))"

text \<open>\<open>as_destroy\<close>, an external call on the address space it is given.\<close>

definition as_destroy :: "addr option \<Rightarrow> kernel \<Rightarrow> fault + kernel" where
  "as_destroy as s = (case as of None \<Rightarrow> Inl Fault | Some x \<Rightarrow> Inr (emit (AS_DESTROY x) s))"

text \<open>
  The body of \<open>if (of != NULL)\<close> in the file-table loop of \<open>proc_destroy\<close>, for
  the handle at address \<open>h\<close> with contents \<open>f\<close>: under the handle's lock the count
  drops by one, and the drop to zero closes the node (when there is one) and destroys
  the handle's lock.
\<close>

definition drop_ref :: "addr \<Rightarrow> openfile \<Rightarrow> kernel \<Rightarrow> fault + kernel" where
  "drop_ref h f s =
     andthen (lock_acquire (of_lock f) s) (\<lambda>s1.
       let f' = f\<lparr>countRef := countRef f - 1\<rparr>;
           s2 = s1\<lparr>openfiles := hupdate (openfiles s1) h f'\<rparr>
       in if countRef f' = 0 then
            (let s3 = (case vn f' of None \<Rightarrow> s2 | Some v \<Rightarrow> emit (VFS_CLOSE h v) s2)
             in andthen (lock_release (of_lock f') s3) (lock_destroy (of_lock f')))
          else lock_release (of_lock f') s2)"

text \<open>
  One iteration of that loop, at descriptor \<open>fd\<close>: an occupied slot drops its
  reference, and the slot is cleared in either case.
\<close>

definition proc_destroy_slot :: "addr \<Rightarrow> nat \<Rightarrow> kernel \<Rightarrow> fault + kernel" where
  "proc_destroy_slot a fd s =
     andthen (proc_read a s) (\<lambda>pr.
     andthen
       (case fileTable pr fd of
          None \<Rightarrow> Inr s
        | Some h \<Rightarrow>
            (case hlookup (openfiles s) h of
               None \<Rightarrow> Inl Fault
             | Some f \<Rightarrow> drop_ref h f s))
       (proc_write a (\<lambda>pr. pr\<lparr>fileTable := (fileTable pr)(fd := None)\<rparr>)))"

function proc_destroy_files :: "config \<Rightarrow> addr \<Rightarrow> nat \<Rightarrow> kernel \<Rightarrow> fault + kernel" where
  "proc_destroy_files cfg a fd s =
     (if fd < OPEN_MAX cfg then
        (case proc_destroy_slot a fd s of
           Inl e \<Rightarrow> Inl e
         | Inr s' \<Rightarrow> proc_destroy_files cfg a (fd + 1) s')
      else Inr s)"
  by pat_completeness auto
termination
  by (relation "measure (\<lambda>(cfg, a, fd, s). OPEN_MAX cfg - fd)") auto

declare proc_destroy_files.simps [simp del]

text \<open>
  The two blocks at the head of \<open>proc_destroy\<close>. ``VFS fields'': a working directory
  is released and the field cleared. ``VM fields'': an address space is detached
  (through \<open>proc_setas\<close> and \<open>as_deactivate\<close> when the process is the current one)
  and then destroyed.
\<close>

definition proc_destroy_vfs :: "addr \<Rightarrow> kernel \<Rightarrow> fault + kernel" where
  "proc_destroy_vfs a s =
     andthen (proc_read a s) (\<lambda>pr.
       case p_cwd pr of
         None \<Rightarrow> Inr s
       | Some v \<Rightarrow> proc_write a (\<lambda>pr. pr\<lparr>p_cwd := None\<rparr>) (emit (VOP_DECREF v) s))"

definition proc_destroy_vm :: "addr \<Rightarrow> kernel \<Rightarrow> fault + kernel" where
  "proc_destroy_vm a s =
     andthen (proc_read a s) (\<lambda>pr.
       if p_addrspace pr \<noteq> None then
         andthen (if Some a = curproc s then
                    andthen (proc_setas None s) (\<lambda>(as, s2). Inr (as, emit AS_DEACTIVATE s2))
                  else
                    andthen (proc_write a (\<lambda>pr. pr\<lparr>p_addrspace := None\<rparr>) s)
                      (\<lambda>s2. Inr (p_addrspace pr, s2)))
           (\<lambda>(as, s2). as_destroy as s2)
       else Inr s)"

text \<open>
  \<open>proc_destroy\<close>, in the order of the source: the two assertions, the working
  directory, the address space, the thread-count assertion, the spinlock, the
  unregistration, the file table, the file-table lock, the name and the PCB.
\<close>

definition proc_destroy :: "config \<Rightarrow> addr option \<Rightarrow> kernel \<Rightarrow> fault + kernel" where
  "proc_destroy cfg p s =
     (case p of
        None \<Rightarrow> Inl Panic
      | Some a \<Rightarrow>
          if p = kproc s then Inl Panic
          else
            andthen (proc_destroy_vfs a s) (\<lambda>s1.
            andthen (proc_destroy_vm a s1) (\<lambda>s3.
            andthen (proc_read a s3) (\<lambda>pr3.
            if p_numthreads pr3 \<noteq> 0 then Inl Panic
            else
              andthen (proc_end_waitpid cfg a (emit (SPINLOCK_CLEANUP a) s3)) (\<lambda>s4.
              andthen (proc_destroy_files cfg a 0 s4) (\<lambda>s5.
              andthen (proc_read a s5) (\<lambda>pr5.
              andthen (lock_destroy (ft_lock pr5) s5) (\<lambda>s6.
              andthen (kfree_name (p_name pr5) s6) (\<lambda>s7.
              kfree_proc (Some a) s7)))))))))"

text \<open>
  \<open>proc_create_runprogram\<close>: a new process that inherits the working directory of the
  current one.
\<close>

definition proc_create_runprogram :: "config \<Rightarrow> string \<Rightarrow> kernel \<Rightarrow> fault + (addr option \<times> kernel)" where
  "proc_create_runprogram cfg name s =
     andthen (proc_create cfg name s) (\<lambda>(newproc, s1).
       case newproc of
         None \<Rightarrow> Inr (None, s1)
       | Some a \<Rightarrow>
           andthen (proc_write a (\<lambda>pr. pr\<lparr>p_addrspace := None\<rparr>) s1) (\<lambda>s2.
           case curproc s2 of
             None \<Rightarrow> Inl Fault
           | Some c \<Rightarrow>
               andthen (proc_read c s2) (\<lambda>cr.
               case p_cwd cr of
                 None \<Rightarrow> Inr (Some a, s2)
               | Some v \<Rightarrow>
                   andthen (proc_write a (\<lambda>pr. pr\<lparr>p_cwd := p_cwd cr\<rparr>) (emit (VOP_INCREF v) s2))
                     (\<lambda>s3. Inr (Some a, s3)))))"

section \<open>Wait and exit\<close>

text \<open>
  \<open>proc_wait\<close>: the two assertions, the wait on the rendezvous primitive, the read of
  the exit status, and the destruction of the process. \<open>proc_signal_end\<close>: the post.
\<close>

definition proc_wait :: "config \<Rightarrow> addr option \<Rightarrow> kernel \<Rightarrow> fault + (int \<times> kernel)" where
  "proc_wait cfg p s =
     (case p of
        None \<Rightarrow> Inl Panic
      | Some a \<Rightarrow>
          if p = kproc s then Inl Panic
          else
            andthen (proc_read a s) (\<lambda>pr.
            andthen (if USE_SEMAPHORE_FOR_WAITPID cfg then sem_P (p_sem pr) s
                     else andthen (lock_acquire (p_cv_lock pr) s) (\<lambda>s1.
                          andthen (cv_wait (p_cv pr) s1) (lock_release (p_cv_lock pr)))) (\<lambda>s2.
            andthen (proc_read a s2) (\<lambda>pr2.
            andthen (proc_destroy cfg p s2) (\<lambda>s3. Inr (p_status pr2, s3))))))"

definition proc_signal_end :: "config \<Rightarrow> addr \<Rightarrow> kernel \<Rightarrow> fault + kernel" where
  "proc_signal_end cfg a s =
     andthen (proc_read a s) (\<lambda>pr.
       if USE_SEMAPHORE_FOR_WAITPID cfg then sem_V (p_sem pr) s
       else andthen (lock_acquire (p_cv_lock pr) s) (\<lambda>s1.
            andthen (cv_signal (p_cv pr) s1) (lock_release (p_cv_lock pr))))"

section \<open>Duplication of a file table\<close>

text \<open>
  Modelled from the spec: \<open>openfileIncrRefCount\<close> is defined in another file of the
  repository; it ``increments the handle's reference count''.
\<close>

definition openfileIncrRefCount :: "addr \<Rightarrow> kernel \<Rightarrow> fault + kernel" where
  "openfileIncrRefCount h s =
     (case hlookup (openfiles s) h of
        None \<Rightarrow> Inl Fault
      | Some f \<Rightarrow> Inr (s\<lparr>openfiles := hupdate (openfiles s) h (f\<lparr>countRef := countRef f + 1\<rparr>)\<rparr>))"

text \<open>
  One iteration of the loop of \<open>proc_file_table_copy\<close>: the source's slot is stored
  in the destination's, and an occupied one counts one more reference on its node and
  on the handle.
\<close>

definition proc_file_table_copy_slot :: "addr \<Rightarrow> addr \<Rightarrow> nat \<Rightarrow> kernel \<Rightarrow> fault + kernel" where
  "proc_file_table_copy_slot psrc pdest fd s =
     andthen (proc_read psrc s) (\<lambda>sr.
     let of' = fileTable sr fd in
     andthen (proc_write pdest (\<lambda>pr. pr\<lparr>fileTable := (fileTable pr)(fd := of')\<rparr>) s) (\<lambda>s1.
     case of' of
       None \<Rightarrow> Inr s1
     | Some h \<Rightarrow>
         (case hlookup (openfiles s1) h of
            None \<Rightarrow> Inl Fault
          | Some f \<Rightarrow>
              (case vn f of
                 None \<Rightarrow> Inl Fault
               | Some v \<Rightarrow> openfileIncrRefCount h (emit (VOP_INCREF v) s1)))))"

function proc_file_table_copy_loop :: "config \<Rightarrow> addr \<Rightarrow> addr \<Rightarrow> nat \<Rightarrow> kernel \<Rightarrow> fault + kernel" where
  "proc_file_table_copy_loop cfg psrc pdest fd s =
     (if fd < OPEN_MAX cfg then
        (case proc_file_table_copy_slot psrc pdest fd s of
           Inl e \<Rightarrow> Inl e
         | Inr s' \<Rightarrow> proc_file_table_copy_loop cfg psrc pdest (fd + 1) s')
      else Inr s)"
  by pat_completeness auto
termination
  by (relation "measure (\<lambda>(cfg, psrc, pdest, fd, s). OPEN_MAX cfg - fd)") auto

declare proc_file_table_copy_loop.simps [simp del]

definition proc_file_table_copy :: "config \<Rightarrow> addr \<Rightarrow> addr \<Rightarrow> kernel \<Rightarrow> fault + kernel" where
  "proc_file_table_copy cfg psrc pdest s =
     andthen (lock_acquire (ft_copy_lock s) s) (\<lambda>s1.
     andthen (proc_read psrc s1) (\<lambda>sr.
     andthen (lock_acquire (ft_lock sr) s1) (\<lambda>s2.
     andthen (proc_read pdest s2) (\<lambda>dr.
     andthen (lock_acquire (ft_lock dr) s2) (\<lambda>s3.
     andthen (proc_file_table_copy_loop cfg psrc pdest 0 s3) (\<lambda>s4.
     andthen (proc_read pdest s4) (\<lambda>dr4.
     andthen (lock_release (ft_lock dr4) s4) (\<lambda>s5.
     andthen (proc_read psrc s5) (\<lambda>sr5.
     andthen (lock_release (ft_lock sr5) s5) (\<lambda>s6.
     lock_release (ft_copy_lock s6) s6))))))))))"

section \<open>Lock acquisition of two concurrent duplications\<close>










section \<open>Properties of states\<close>

text \<open>
  The number of slots among the descriptors \<open>fds\<close> of a file table that reference
  handle \<open>h\<close>; the number of slots of one heap cell, and of all processes, that do.
\<close>

definition slot_refs :: "(nat \<Rightarrow> addr option) \<Rightarrow> addr \<Rightarrow> nat list \<Rightarrow> nat" where
  "slot_refs ft h fds = length (filter (\<lambda>fd. ft fd = Some h) fds)"

definition proc_refs :: "config \<Rightarrow> proc option \<Rightarrow> addr \<Rightarrow> nat" where
  "proc_refs cfg c h =
     (case c of None \<Rightarrow> 0 | Some pr \<Rightarrow> slot_refs (fileTable pr) h [0..<OPEN_MAX cfg])"

definition total_refs :: "config \<Rightarrow> kernel \<Rightarrow> addr \<Rightarrow> nat" where
  "total_refs cfg s h = sum_list (map (\<lambda>c. proc_refs cfg c h) (procs s))"

text \<open>
  The reference-count invariant: the count of every handle is the number of
  file-table slots, over all processes, that reference it.
\<close>

definition refcount_inv :: "config \<Rightarrow> kernel \<Rightarrow> bool" where
  "refcount_inv cfg s =
     list_all (\<lambda>(h, c). case c of None \<Rightarrow> True
                         | Some f \<Rightarrow> countRef f = int (total_refs cfg s h))
       (enumerate 0 (openfiles s))"

text \<open>Every descriptor of a file table is empty.\<close>

definition table_empty :: "config \<Rightarrow> proc \<Rightarrow> bool" where
  "table_empty cfg pr = list_all (\<lambda>fd. fileTable pr fd = None) [0..<OPEN_MAX cfg]"

text \<open>The number of \<open>vfs_close\<close> calls made for handle \<open>h\<close> in a trace.\<close>

definition closes :: "addr \<Rightarrow> event list \<Rightarrow> nat" where
  "closes h tr = length (filter (\<lambda>e. case e of VFS_CLOSE h' v \<Rightarrow> h' = h | _ \<Rightarrow> False) tr)"

text \<open>
  The process-table invariant: an occupied slot \<open>i\<close> in \<open>1..MAX_PROC\<close> holds a live
  process whose identifier is \<open>i\<close>.
\<close>

definition slot_ok :: "kernel \<Rightarrow> nat \<Rightarrow> bool" where
  "slot_ok s i =
     (case slots (processTable s) i of
        None \<Rightarrow> True
      | Some a \<Rightarrow> (case hlookup (procs s) a of None \<Rightarrow> False | Some pr \<Rightarrow> p_pid pr = int i))"

definition pt_inv :: "kernel \<Rightarrow> bool" where
  "pt_inv s = list_all (slot_ok s) [1..<Suc (nat MAX_PROC)]"

text \<open>Process \<open>a\<close> is stored in some slot in \<open>1..MAX_PROC\<close>.\<close>

definition registered :: "kernel \<Rightarrow> addr \<Rightarrow> bool" where
  "registered s a = list_ex (\<lambda>i. slots (processTable s) i = Some a) [1..<Suc (nat MAX_PROC)]"

text \<open>Every slot in \<open>1..MAX_PROC\<close> is occupied; at least one slot other than \<open>k\<close> is free.\<close>

definition table_full :: "kernel \<Rightarrow> bool" where
  "table_full s = list_all (\<lambda>i. slots (processTable s) i \<noteq> None) [1..<Suc (nat MAX_PROC)]"

definition free_slot_besides :: "kernel \<Rightarrow> int \<Rightarrow> bool" where
  "free_slot_besides s k =
     list_ex (\<lambda>i. slots (processTable s) i = None \<and> int i \<noteq> k) [1..<Suc (nat MAX_PROC)]"

text \<open>
  \<open>last_i\<close> is 0 before the first registration and the index of a slot afterwards.
\<close>

definition last_i_ok :: "kernel \<Rightarrow> bool" where
  "last_i_ok s = (0 \<le> last_i (processTable s) \<and> last_i (processTable s) \<le> MAX_PROC)"

text \<open>The next \<open>n\<close> allocations succeed.\<close>

definition allocs_succeed :: "nat \<Rightarrow> kernel \<Rightarrow> bool" where
  "allocs_succeed n s = list_all (\<lambda>b. \<not> b) (take n (alloc_fail s))"

text \<open>
  The parent back-reference of PCB \<open>pr\<close> points at a live process whose identifier
  is \<open>pid\<close>.
\<close>

definition parent_has_pid :: "kernel \<Rightarrow> proc \<Rightarrow> int \<Rightarrow> bool" where
  "parent_has_pid s pr pid =
     (case parent_proc pr of
        None \<Rightarrow> False
      | Some q \<Rightarrow> (case hlookup (procs s) q of None \<Rightarrow> False | Some qr \<Rightarrow> p_pid qr = pid))"

text \<open>
  Every registered process is live, and so is the process its parent back-reference
  points at.
\<close>

definition links_valid :: "kernel \<Rightarrow> bool" where
  "links_valid s =
     list_all (\<lambda>i. case slots (processTable s) i of
                      None \<Rightarrow> True
                    | Some a \<Rightarrow> (case hlookup (procs s) a of
                                   None \<Rightarrow> False
                                 | Some pr \<Rightarrow> (case parent_proc pr of
                                                None \<Rightarrow> True
                                              | Some q \<Rightarrow> hlookup (procs s) q \<noteq> None)))
       [1..<Suc (nat MAX_PROC)]"

text \<open>
  What the file-table loop of \<open>proc_destroy\<close> needs of the descriptors \<open>fds\<close> still to
  be torn down: each handle is live, its lock is live, free, not the table's own lock
  and not the lock of another handle among them, and its count covers the slots
  that reference it.
\<close>

definition handle_lock :: "kernel \<Rightarrow> addr \<Rightarrow> addr option" where
  "handle_lock s h = (case hlookup (openfiles s) h of None \<Rightarrow> None | Some f \<Rightarrow> of_lock f)"

definition slot_ready :: "kernel \<Rightarrow> proc \<Rightarrow> nat list \<Rightarrow> nat \<Rightarrow> bool" where
  "slot_ready s pr fds i =
     (case fileTable pr i of
        None \<Rightarrow> True
      | Some h \<Rightarrow>
          (case hlookup (openfiles s) h of
             None \<Rightarrow> False
           | Some f \<Rightarrow>
               (case of_lock f of
                  None \<Rightarrow> False
                | Some lk \<Rightarrow>
                    hlookup (locks s) lk = Some False \<and> ft_lock pr \<noteq> Some lk \<and>
                    int (slot_refs (fileTable pr) h fds) \<le> countRef f \<and>
                    list_all (\<lambda>j. case fileTable pr j of
                                     None \<Rightarrow> True
                                   | Some h' \<Rightarrow> h' = h \<or> handle_lock s h' \<noteq> Some lk) fds)))"

definition files_ready :: "config \<Rightarrow> kernel \<Rightarrow> proc \<Rightarrow> nat \<Rightarrow> bool" where
  "files_ready cfg s pr fd =
     list_all (slot_ready s pr [fd..<OPEN_MAX cfg]) [fd..<OPEN_MAX cfg]"

text \<open>
  What \<open>proc_end_waitpid\<close> needs of the rendezvous primitive: with semaphores, a live
  semaphore; with condition variables, a live condition variable and a live, free
  lock that is neither the table's own lock nor the lock of a handle in the table.
\<close>

definition rendezvous_ready :: "config \<Rightarrow> kernel \<Rightarrow> proc \<Rightarrow> bool" where
  "rendezvous_ready cfg s pr =
     (if USE_SEMAPHORE_FOR_WAITPID cfg then
        (case p_sem pr of None \<Rightarrow> False | Some m \<Rightarrow> hlookup (sems s) m \<noteq> None)
      else
        (case p_cv pr of None \<Rightarrow> False | Some c \<Rightarrow> hlookup (cvs s) c \<noteq> None) \<and>
        (case p_cv_lock pr of
           None \<Rightarrow> False
         | Some lc \<Rightarrow>
             hlookup (locks s) lc = Some False \<and> ft_lock pr \<noteq> Some lc \<and>
             list_all (\<lambda>fd. case fileTable pr fd of
                              None \<Rightarrow> True
                            | Some h \<Rightarrow> handle_lock s h \<noteq> Some lc) [0..<OPEN_MAX cfg]))"

text \<open>
  What \<open>proc_destroy\<close> needs of a process in order to return: no thread attached, an
  identifier in range, the rendezvous primitive, the file-table lock and the name
  live, and the file table ready to be torn down.
\<close>

definition destroy_ready :: "config \<Rightarrow> kernel \<Rightarrow> addr \<Rightarrow> bool" where
  "destroy_ready cfg s a =
     (case hlookup (procs s) a of
        None \<Rightarrow> False
      | Some pr \<Rightarrow>
          p_numthreads pr = 0 \<and> 0 < p_pid pr \<and> p_pid pr \<le> MAX_PROC \<and>
          rendezvous_ready cfg s pr \<and>
          (case ft_lock pr of None \<Rightarrow> False | Some l \<Rightarrow> hlookup (locks s) l = Some False) \<and>
          (case p_name pr of None \<Rightarrow> True | Some n \<Rightarrow> hlookup (names s) n \<noteq> None) \<and>
          files_ready cfg s pr 0)"

text \<open>
  What \<open>proc_file_table_copy\<close> needs in order to return: the global copy lock and the
  file-table locks of the source and of the destination are three different locks,
  each live and free; and every handle in the source's table is live and has a node.
\<close>

definition copy_ready :: "config \<Rightarrow> kernel \<Rightarrow> addr \<Rightarrow> addr \<Rightarrow> bool" where
  "copy_ready cfg s psrc pdest =
     (case ft_copy_lock s of
        None \<Rightarrow> False
      | Some g \<Rightarrow>
          (case hlookup (procs s) psrc of
             None \<Rightarrow> False
           | Some sr \<Rightarrow>
               (case hlookup (procs s) pdest of
                  None \<Rightarrow> False
                | Some dr \<Rightarrow>
                    (case ft_lock sr of
                       None \<Rightarrow> False
                     | Some ls \<Rightarrow>
                         (case ft_lock dr of
                            None \<Rightarrow> False
                          | Some ld \<Rightarrow>
                              g \<noteq> ls \<and> g \<noteq> ld \<and> ls \<noteq> ld \<and>
                              hlookup (locks s) g = Some False \<and>
                              hlookup (locks s) ls = Some False \<and>
                              hlookup (locks s) ld = Some False \<and>
                              list_all (\<lambda>fd. case fileTable sr fd of
                                               None \<Rightarrow> True
                                             | Some h \<Rightarrow>
                                                 (case hlookup (openfiles s) h of
                                                    None \<Rightarrow> False
                                                  | Some f \<Rightarrow> vn f \<noteq> None))
                                [0..<OPEN_MAX cfg])))))"

section \<open>Example states\<close>

text \<open>
  A configuration with identifiers from 1, two descriptors per table and the semaphore
  rendezvous; the kernel before any process exists; and the same kernel holding one
  PCB that has not been registered.
\<close>

definition example_config :: config where
  "example_config = \<lparr>PID_MIN = 1, OPEN_MAX = 2, USE_SEMAPHORE_FOR_WAITPID = True\<rparr>"

definition empty_kernel :: kernel where
  "empty_kernel =
     \<lparr>processTable = \<lparr>slots = (\<lambda>i. None), last_i = 0, is_full = False\<rparr>,
      ft_copy_lock = None, kproc = None, curproc = None,
      procs = [], names = [], locks = [], sems = [], cvs = [], openfiles = [],
      trace = [], alloc_fail = []\<rparr>"

definition one_proc_kernel :: kernel where
  "one_proc_kernel = empty_kernel\<lparr>procs := [Some fresh_proc]\<rparr>"

text \<open>
  The kernel with 100 registered processes, the one at address \<open>i\<close> carrying
  identifier \<open>i + 1\<close>: every slot is occupied and the last registration took slot 100.
\<close>

definition full_kernel :: kernel where
  "full_kernel = empty_kernel
     \<lparr>processTable := \<lparr>slots = (\<lambda>i. if 1 \<le> i \<and> i \<le> 100 then Some (i - 1) else None),
                        last_i = 100, is_full = False\<rparr>,
      procs := map (\<lambda>i. Some (fresh_proc\<lparr>p_name := Some i, ft_lock := Some i,
                                            p_pid := int i + 1, p_sem := Some i\<rparr>)) [0..<100],
      names := replicate 100 (Some ''proc''), locks := replicate 100 (Some False),
      sems := replicate 100 (Some 0)\<rparr>"

text \<open>
  Three registered processes: the one with identifier 1 is the parent of the one with
  identifier 2, which is the parent of the one with identifier 3.
\<close>

definition family_kernel :: kernel where
  "family_kernel = empty_kernel
     \<lparr>processTable := \<lparr>slots = (\<lambda>i. if 1 \<le> i \<and> i \<le> 3 then Some (i - 1) else None),
                        last_i = 3, is_full = False\<rparr>,
      procs := [Some (fresh_proc\<lparr>p_pid := 1\<rparr>),
                Some (fresh_proc\<lparr>parent_proc := Some 0, p_pid := 2\<rparr>),
                Some (fresh_proc\<lparr>parent_proc := Some 1, p_pid := 3\<rparr>)]\<rparr>"

text \<open>
  Two registered processes with an open file each: process 0 holds handle 0 at
  descriptor 0, process 1 holds handle 1 at descriptor 1. Lock 0 is the global copy
  lock, locks 1 and 2 are the file-table locks, locks 3 and 4 the handles' locks.
\<close>

definition two_table_kernel :: kernel where
  "two_table_kernel = empty_kernel
     \<lparr>processTable := \<lparr>slots = (\<lambda>i. if 1 \<le> i \<and> i \<le> 2 then Some (i - 1) else None),
                        last_i = 2, is_full = False\<rparr>,
      ft_copy_lock := Some 0,
      procs := [Some (fresh_proc\<lparr>p_name := Some 0, ft_lock := Some 1, p_pid := 1, p_sem := Some 0,
                                  fileTable := (\<lambda>fd. None)(0 := Some 0)\<rparr>),
                Some (fresh_proc\<lparr>p_name := Some 1, ft_lock := Some 2, p_pid := 2, p_sem := Some 1,
                                  fileTable := (\<lambda>fd. None)(1 := Some 1)\<rparr>)],
      names := [Some ''a'', Some ''b''],
      locks := [Some False, Some False, Some False, Some False, Some False],
      sems := [Some 0, Some 0],
      openfiles := [Some \<lparr>vn = Some 7, countRef = 1, of_lock = Some 3\<rparr>,
                    Some \<lparr>vn = Some 8, countRef = 1, of_lock = Some 4\<rparr>]\<rparr>"

text \<open>
  The same two processes when process 1 has no open file (a process just created),
  and when both hold handle 0 at descriptor 0 (after a duplication).
\<close>

definition fork_kernel :: kernel where
  "fork_kernel = two_table_kernel
     \<lparr>procs := [Some (fresh_proc\<lparr>p_name := Some 0, ft_lock := Some 1, p_pid := 1, p_sem := Some 0,
                                  fileTable := (\<lambda>fd. None)(0 := Some 0)\<rparr>),
                Some (fresh_proc\<lparr>p_name := Some 1, ft_lock := Some 2, p_pid := 2, p_sem := Some 1\<rparr>)],
      openfiles := [Some \<lparr>vn = Some 7, countRef = 1, of_lock = Some 3\<rparr>]\<rparr>"


section \<open>Heap lookups\<close>


lemma hlookup_hupdate: "hlookup (hupdate h a v) b = (if b = a \<and> a < length h then Some v else hlookup h b)"
  by (auto simp: hlookup_def hupdate_def)

lemma hlookup_hfree: "hlookup (hfree h a) b = (if b = a then None else hlookup h b)"
  by (auto simp: hlookup_def hfree_def)

lemma hlookup_snoc: "hlookup (h @ [c]) b = (if b = length h then c else hlookup h b)"
  by (auto simp: hlookup_def nth_append)

lemma hlookup_less: "hlookup h a = Some v \<Longrightarrow> a < length h"
  by (auto simp: hlookup_def split: if_splits)

lemma length_hupdate: "length (hupdate h a v) = length h"
  by (simp add: hupdate_def)

lemma length_hfree: "length (hfree h a) = length h"
  by (simp add: hfree_def)

lemma scan_found:
  assumes "proc_init_waitpid_scan tbl stop i = Some r"
  shows "case r of Inl e \<Rightarrow> e = Fault
         | Inr None \<Rightarrow> True
         | Inr (Some j) \<Rightarrow> 0 \<le> j \<and> j \<le> MAX_PROC \<and> j \<noteq> stop \<and> tbl (nat j) = None \<and> (1 \<le> i \<longrightarrow> 1 \<le> j)"
proof (rule proc_init_waitpid_scan.raw_induct
    [where P = "\<lambda>tbl stop i r. case r of Inl e \<Rightarrow> e = Fault
         | Inr None \<Rightarrow> True
         | Inr (Some j) \<Rightarrow> 0 \<le> j \<and> j \<le> MAX_PROC \<and> j \<noteq> stop \<and> tbl (nat j) = None \<and> (1 \<le> i \<longrightarrow> 1 \<le> j)",
     OF _ assms])
  fix scan :: "(nat \<Rightarrow> addr option) \<Rightarrow> int \<Rightarrow> int \<Rightarrow> (fault + int option) option"
    and tbl stop i r
  assume IH: "\<And>tbl stop i r. scan tbl stop i = Some r \<Longrightarrow>
         (case r of Inl e \<Rightarrow> e = Fault
         | Inr None \<Rightarrow> True
         | Inr (Some j) \<Rightarrow> 0 \<le> j \<and> j \<le> MAX_PROC \<and> j \<noteq> stop \<and> tbl (nat j) = None \<and> (1 \<le> i \<longrightarrow> 1 \<le> j))"
    and eq: "(if i = stop then Some (Inr None)
      else if i < 0 \<or> MAX_PROC < i then Some (Inl Fault)
           else if tbl (nat i) = None then Some (Inr (Some i))
                else scan tbl stop (if MAX_PROC < i + 1 then 1 else i + 1)) = Some r"
  show "case r of Inl e \<Rightarrow> e = Fault
         | Inr None \<Rightarrow> True
         | Inr (Some j) \<Rightarrow> 0 \<le> j \<and> j \<le> MAX_PROC \<and> j \<noteq> stop \<and> tbl (nat j) = None \<and> (1 \<le> i \<longrightarrow> 1 \<le> j)"
  proof (cases "i = stop \<or> i < 0 \<or> MAX_PROC < i \<or> tbl (nat i) = None")
    case True
    with eq show ?thesis by (auto split: if_splits)
  next
    case False
    with eq obtain i' where "scan tbl stop i' = Some r" and "i' = 1 \<or> i' = i + 1"
      by (auto split: if_splits)
    from IH [OF this(1)] this(2) False show ?thesis
      by (cases r) (auto split: option.splits)
  qed
qed

lemma scan_found_Some:
  "proc_init_waitpid_scan tbl stop i = Some (Inr (Some j)) \<Longrightarrow>
     0 \<le> j \<and> j \<le> MAX_PROC \<and> j \<noteq> stop \<and> tbl (nat j) = None \<and> (1 \<le> i \<longrightarrow> 1 \<le> j)"
  using scan_found [of tbl stop i "Inr (Some j)"] by simp

lemma scan_reaches:
  assumes "1 \<le> i" "i \<le> MAX_PROC" "1 \<le> t" "t \<le> MAX_PROC" "t = stop \<or> tbl (nat t) = None"
    and "int n = (if i \<le> t then t - i else t - i + MAX_PROC)"
  shows "\<exists>r. proc_init_waitpid_scan tbl stop i = Some (Inr r)"
  using assms
proof (induction n arbitrary: i)
  case 0
  then have "i = t" by (simp add: MAX_PROC_def split: if_splits)
  with 0 show ?case
    by (subst proc_init_waitpid_scan.simps) auto
next
  case (Suc n)
  let ?i' = "if i + 1 > MAX_PROC then 1 else i + 1"
  have "\<exists>r. proc_init_waitpid_scan tbl stop ?i' = Some (Inr r)"
  proof (rule Suc.IH)
    show "int n = (if ?i' \<le> t then t - ?i' else t - ?i' + MAX_PROC)"
      using Suc.prems unfolding MAX_PROC_def by (simp split: if_splits)
  qed (use Suc.prems in \<open>simp_all add: MAX_PROC_def\<close>)
  then show ?case using Suc.prems
    by (subst proc_init_waitpid_scan.simps) auto
qed



lemma scan_returns:
  assumes "1 \<le> i" "i \<le> MAX_PROC" "1 \<le> t" "t \<le> MAX_PROC" "t = stop \<or> tbl (nat t) = None"
  shows "\<exists>r. proc_init_waitpid_scan tbl stop i = Some (Inr r)"
proof (rule scan_reaches [of i t stop tbl "nat (if i \<le> t then t - i else t - i + MAX_PROC)"])
  show "int (nat (if i \<le> t then t - i else t - i + MAX_PROC)) = (if i \<le> t then t - i else t - i + MAX_PROC)"
    using assms by (simp add: MAX_PROC_def)
qed (use assms in simp_all)

lemma scan_full:
  assumes "1 \<le> i" "i \<le> MAX_PROC" "1 \<le> stop" "stop \<le> MAX_PROC"
    and "\<And>k. 1 \<le> k \<Longrightarrow> k \<le> MAX_PROC \<Longrightarrow> k \<noteq> stop \<Longrightarrow> tbl (nat k) \<noteq> None"
  shows "proc_init_waitpid_scan tbl stop i = Some (Inr None)"
proof -
  obtain r where r: "proc_init_waitpid_scan tbl stop i = Some (Inr r)"
    using scan_returns [of i stop stop tbl] assms by auto
  show ?thesis
  proof (cases r)
    case None
    with r show ?thesis by simp
  next
    case (Some j)
    with r scan_found_Some [of tbl stop i j] assms(1) have "1 \<le> j" "j \<le> MAX_PROC" "j \<noteq> stop" "tbl (nat j) = None"
      by auto
    with assms(5) show ?thesis by blast
  qed
qed


lemma scan_finds_up:
  assumes "1 \<le> i" "i \<le> t" "t \<le> MAX_PROC" "tbl (nat t) = None" "t \<noteq> stop"
    and "stop < i \<or> t \<le> stop"
    and "n = nat (t - i)"
  shows "\<exists>j. proc_init_waitpid_scan tbl stop i = Some (Inr (Some j))"
  using assms
proof (induction n arbitrary: i)
  case 0
  then have "i = t" by simp
  with 0 show ?case
    by (subst proc_init_waitpid_scan.simps) auto
next
  case (Suc n)
  then have lt: "i < t" and ne: "i \<noteq> stop" by auto
  have "\<exists>j. proc_init_waitpid_scan tbl stop (i + 1) = Some (Inr (Some j))"
    by (rule Suc.IH) (use Suc.prems lt in auto)
  moreover have "\<not> MAX_PROC < i + 1" using lt Suc.prems by simp
  ultimately show ?case using Suc.prems ne
    by (subst proc_init_waitpid_scan.simps) auto
qed

lemma scan_finds_wrap:
  assumes "1 \<le> t" "t < i" "i \<le> MAX_PROC" "tbl (nat t) = None" "t \<noteq> stop"
    and "stop < 1 \<or> (t < stop \<and> stop < i) \<or> MAX_PROC < stop"
    and "n = nat (MAX_PROC - i)"
  shows "\<exists>j. proc_init_waitpid_scan tbl stop i = Some (Inr (Some j))"
  using assms
proof (induction n arbitrary: i)
  case 0
  then have i: "i = MAX_PROC" by simp
  have "\<exists>j. proc_init_waitpid_scan tbl stop 1 = Some (Inr (Some j))"
    by (rule scan_finds_up [where t = t and n = "nat (t - 1)"]) (use 0 i in auto)
  moreover have "i \<noteq> stop" using 0 by auto
  ultimately show ?case using 0 i
    by (subst proc_init_waitpid_scan.simps) auto
next
  case (Suc n)
  then have lt: "i < MAX_PROC" and ne: "i \<noteq> stop" by auto
  have "\<exists>j. proc_init_waitpid_scan tbl stop (i + 1) = Some (Inr (Some j))"
    by (rule Suc.IH) (use Suc.prems lt in auto)
  moreover have "\<not> MAX_PROC < i + 1" using lt by simp
  ultimately show ?case using Suc.prems ne
    by (subst proc_init_waitpid_scan.simps) auto
qed

lemma scan_finds:
  assumes "0 \<le> stop" "stop \<le> MAX_PROC" "1 \<le> t" "t \<le> MAX_PROC" "tbl (nat t) = None" "t \<noteq> stop"
  shows "\<exists>j. proc_init_waitpid_scan tbl stop (if stop + 1 > MAX_PROC then 1 else stop + 1) = Some (Inr (Some j))"
proof -
  consider "stop = MAX_PROC" | "stop < MAX_PROC" "stop < t" | "stop < MAX_PROC" "t < stop"
    using assms by linarith
  then show ?thesis
  proof cases
    case 1
    have "\<exists>j. proc_init_waitpid_scan tbl stop 1 = Some (Inr (Some j))"
      by (rule scan_finds_up [where t = t and n = "nat (t - 1)"]) (use assms 1 in auto)
    with 1 show ?thesis by simp
  next
    case 2
    have "\<exists>j. proc_init_waitpid_scan tbl stop (stop + 1) = Some (Inr (Some j))"
      by (rule scan_finds_up [where t = t and n = "nat (t - (stop + 1))"]) (use assms 2 in auto)
    with 2 show ?thesis by simp
  next
    case 3
    have "\<exists>j. proc_init_waitpid_scan tbl stop (stop + 1) = Some (Inr (Some j))"
      by (rule scan_finds_wrap [where t = t and n = "nat (MAX_PROC - (stop + 1))"]) (use assms 3 in auto)
    with 3 show ?thesis by simp
  qed
qed

section \<open>Registration, release and lookup\<close>


lemmas create_defs = sem_create_def cv_create_def lock_create_def next_alloc_fails_def

text \<open>What a registration that returns has done.\<close>

lemma proc_init_waitpid_result:
  assumes "proc_init_waitpid cfg p s = Inr s1"
  shows "\<exists>pr pr1. hlookup (procs s) p = Some pr \<and> hlookup (procs s1) p = Some pr1 \<and>
      length (procs s1) = length (procs s) \<and>
      (\<forall>q. q \<noteq> p \<longrightarrow> hlookup (procs s1) q = hlookup (procs s) q) \<and>
      openfiles s1 = openfiles s \<and> names s1 = names s \<and> kproc s1 = kproc s \<and>
      fileTable pr1 = fileTable pr \<and> parent_proc pr1 = parent_proc pr \<and>
      ((p_pid pr1 = 0 \<and> slots (processTable s1) = slots (processTable s) \<and>
        last_i (processTable s1) = last_i (processTable s) \<and> is_full (processTable s1)) \<or>
       (0 \<le> p_pid pr1 \<and> p_pid pr1 \<le> MAX_PROC \<and> p_pid pr1 \<noteq> last_i (processTable s) \<and>
        (0 \<le> last_i (processTable s) \<longrightarrow> 1 \<le> p_pid pr1) \<and>
        slots (processTable s) (nat (p_pid pr1)) = None \<and>
        slots (processTable s1) = (slots (processTable s))(nat (p_pid pr1) := Some p) \<and>
        last_i (processTable s1) = p_pid pr1 \<and>
        is_full (processTable s1) = (p_pid pr1 = 0 \<or> is_full (processTable s))))"
proof -
  from assms obtain pr where pr: "hlookup (procs s) p = Some pr"
    by (auto simp: proc_init_waitpid_def split: option.splits)
  let ?i = "if last_i (processTable s) + 1 > MAX_PROC then 1 else last_i (processTable s) + 1"
  from assms pr obtain r where r: "proc_init_waitpid_scan (slots (processTable s)) (last_i (processTable s)) ?i = Some (Inr r)"
    by (auto simp: proc_init_waitpid_def Let_def split: option.splits sum.splits)
  have lt: "p < length (procs s)" using pr by (rule hlookup_less)
  show ?thesis
  proof (cases r)
    case None
    with assms pr r lt show ?thesis
      by (auto simp: proc_init_waitpid_def Let_def hlookup_hupdate length_hupdate)
  next
    case (Some j)
    with r have f: "0 \<le> j" "j \<le> MAX_PROC" "j \<noteq> last_i (processTable s)"
      "slots (processTable s) (nat j) = None" "1 \<le> ?i \<longrightarrow> 1 \<le> j"
      using scan_found_Some [of "slots (processTable s)" "last_i (processTable s)" ?i j] by auto
    have g: "0 \<le> last_i (processTable s) \<longrightarrow> 1 \<le> j"
      using f(5) by (auto simp: MAX_PROC_def split: if_splits)
    from assms pr r Some lt f(1-4) g show ?thesis
      by (auto simp: proc_init_waitpid_def Let_def hlookup_hupdate length_hupdate create_defs
          split: prod.splits list.splits if_splits)
  qed
qed


text \<open>What a release that returns has done.\<close>

lemma proc_end_waitpid_live:
  "proc_end_waitpid cfg p s = Inr s1 \<Longrightarrow> \<exists>pr. hlookup (procs s) p = Some pr"
  by (auto simp: proc_end_waitpid_def split: option.splits)

lemma proc_end_waitpid_result:
  assumes "proc_end_waitpid cfg p s = Inr s1" and "hlookup (procs s) p = Some pr"
  shows "0 < p_pid pr \<and> p_pid pr \<le> MAX_PROC \<and>
      procs s1 = procs s \<and> openfiles s1 = openfiles s \<and> names s1 = names s \<and>
      kproc s1 = kproc s \<and> curproc s1 = curproc s \<and> trace s1 = trace s \<and>
      slots (processTable s1) = (slots (processTable s))(nat (p_pid pr) := None) \<and>
      last_i (processTable s1) = last_i (processTable s) \<and> \<not> is_full (processTable s1)"
  using assms
  by (auto simp: proc_end_waitpid_def Let_def sem_destroy_def cv_destroy_def lock_destroy_def
      andthen_def split: option.splits if_splits sum.splits)

lemma proc_search_pid_Some_iff:
  "proc_search_pid cfg i s = Inr (Some a) \<longleftrightarrow>
     PID_MIN cfg \<le> i \<and> 0 \<le> i \<and> i \<le> MAX_PROC \<and> slots (processTable s) (nat i) = Some a \<and>
     (\<exists>pr. hlookup (procs s) a = Some pr \<and> p_pid pr = i)"
  by (auto simp: proc_search_pid_def split: option.splits)

lemma pt_inv_iff: "pt_inv s \<longleftrightarrow> (\<forall>i. 1 \<le> i \<and> i \<le> nat MAX_PROC \<longrightarrow> slot_ok s i)"
  by (auto simp: pt_inv_def list_all_iff)

lemma registered_iff:
  "registered s a \<longleftrightarrow> (\<exists>i. 1 \<le> i \<and> i \<le> nat MAX_PROC \<and> slots (processTable s) i = Some a)"
  by (auto simp: registered_def list_ex_iff)

lemma pt_inv_proc_init_waitpid:
  assumes inv: "pt_inv s" and nr: "\<not> registered s p" and run: "proc_init_waitpid cfg p s = Inr s1"
  shows "pt_inv s1"
proof -
  from proc_init_waitpid_result [OF run] obtain pr pr1 where
    p1: "hlookup (procs s1) p = Some pr1"
    and other: "\<forall>q. q \<noteq> p \<longrightarrow> hlookup (procs s1) q = hlookup (procs s) q"
    and cases: "(p_pid pr1 = 0 \<and> slots (processTable s1) = slots (processTable s)) \<or>
       (0 \<le> p_pid pr1 \<and> p_pid pr1 \<le> MAX_PROC \<and>
        slots (processTable s1) = (slots (processTable s))(nat (p_pid pr1) := Some p))"
    by blast
  show ?thesis
    unfolding pt_inv_iff
  proof (intro allI impI)
    fix i assume i: "1 \<le> i \<and> i \<le> nat MAX_PROC"
    with inv have ok: "slot_ok s i" by (simp add: pt_inv_iff)
    from nr i have np: "slots (processTable s) i \<noteq> Some p" by (auto simp: registered_iff)
    from cases show "slot_ok s1 i"
    proof
      assume "p_pid pr1 = 0 \<and> slots (processTable s1) = slots (processTable s)"
      with ok np other show ?thesis
        by (auto simp: slot_ok_def split: option.splits)
    next
      assume c: "0 \<le> p_pid pr1 \<and> p_pid pr1 \<le> MAX_PROC \<and>
        slots (processTable s1) = (slots (processTable s))(nat (p_pid pr1) := Some p)"
      show ?thesis
      proof (cases "i = nat (p_pid pr1)")
        case True
        with c p1 show ?thesis by (simp add: slot_ok_def)
      next
        case False
        with c ok np other show ?thesis
          by (auto simp: slot_ok_def split: option.splits)
      qed
    qed
  qed
qed

lemma pt_inv_proc_end_waitpid:
  assumes inv: "pt_inv s" and run: "proc_end_waitpid cfg p s = Inr s1"
  shows "pt_inv s1"
proof -
  from proc_end_waitpid_live [OF run] obtain pr where "hlookup (procs s) p = Some pr" ..
  from proc_end_waitpid_result [OF run this]
  have e: "procs s1 = procs s" "slots (processTable s1) = (slots (processTable s))(nat (p_pid pr) := None)"
    by simp_all
  have "slot_ok s1 i" if "slot_ok s i" for i
    using that by (auto simp: slot_ok_def e split: option.splits)
  with inv show ?thesis
    by (simp add: pt_inv_iff)
qed


lemma one_proc_registered:
  "proc_init_waitpid example_config 0 one_proc_kernel =
     Inr (one_proc_kernel\<lparr>
       processTable := \<lparr>slots = (\<lambda>i. None)(1 := Some 0), last_i = 1, is_full = False\<rparr>,
       sems := [Some 0],
       procs := [Some (fresh_proc\<lparr>p_pid := 1, p_status := 0, p_sem := Some 0\<rparr>)]\<rparr>)"
  by (simp add: proc_init_waitpid_def one_proc_kernel_def empty_kernel_def example_config_def
      hlookup_def hupdate_def Let_def create_defs MAX_PROC_def proc_init_waitpid_scan.simps)

lemma proc_init_waitpid_other:
  "proc_init_waitpid cfg p s = Inr s1 \<Longrightarrow> q \<noteq> p \<Longrightarrow> hlookup (procs s1) q = hlookup (procs s) q"
  using proc_init_waitpid_result [of cfg p s s1] by auto

lemma proc_init_waitpid_slot_kept:
  assumes "proc_init_waitpid cfg p s = Inr s1" "slots (processTable s) k = Some a"
  shows "slots (processTable s1) k = Some a"
  using proc_init_waitpid_result [OF assms(1)] assms(2) by (auto split: if_splits)

lemma proc_init_waitpid_assigned:
  assumes "proc_init_waitpid cfg p s = Inr s1" "hlookup (procs s1) p = Some pr1" "p_pid pr1 \<noteq> 0"
  shows "0 \<le> p_pid pr1 \<and> p_pid pr1 \<le> MAX_PROC \<and> p_pid pr1 \<noteq> last_i (processTable s) \<and>
        (0 \<le> last_i (processTable s) \<longrightarrow> 1 \<le> p_pid pr1) \<and>
        slots (processTable s) (nat (p_pid pr1)) = None \<and>
        slots (processTable s1) = (slots (processTable s))(nat (p_pid pr1) := Some p) \<and>
        last_i (processTable s1) = p_pid pr1 \<and>
        is_full (processTable s1) = is_full (processTable s)"
  using proc_init_waitpid_result [OF assms(1)] assms(2,3) by auto

text \<open>
  C5. With identifiers starting at 1, a lookup of an identifier below 1 or above
  \<open>MAX_PROC\<close> returns \<open>NULL\<close> normally in every state. A registration that assigned
  an identifier makes the lookup of that identifier return the registered process, and
  the lookup keeps returning it across the registration of another process and across
  the release of a different identifier.
\<close>

theorem proc_search_pid_lookup:
  assumes "PID_MIN cfg = 1"
  shows "(\<forall>pid s. pid < 1 \<or> MAX_PROC < pid \<longrightarrow> proc_search_pid cfg pid s = Inr None) \<and>
    (\<forall>p s s1 pr1. proc_init_waitpid cfg p s = Inr s1 \<and>
        hlookup (procs s1) p = Some pr1 \<and> p_pid pr1 \<noteq> 0 \<longrightarrow>
        1 \<le> p_pid pr1 \<and> p_pid pr1 \<le> MAX_PROC \<and>
        proc_search_pid cfg (p_pid pr1) s1 = Inr (Some p)) \<and>
    (\<forall>i p q s s1. proc_search_pid cfg i s = Inr (Some p) \<and> q \<noteq> p \<and>
        proc_init_waitpid cfg q s = Inr s1 \<longrightarrow> proc_search_pid cfg i s1 = Inr (Some p)) \<and>
    (\<forall>i p q qr s s1. proc_search_pid cfg i s = Inr (Some p) \<and> hlookup (procs s) q = Some qr \<and>
        p_pid qr \<noteq> i \<and> proc_end_waitpid cfg q s = Inr s1 \<longrightarrow>
        proc_search_pid cfg i s1 = Inr (Some p))"
proof (intro conjI allI impI)
  fix pid :: int and s
  assume "pid < 1 \<or> MAX_PROC < pid"
  with assms show "proc_search_pid cfg pid s = Inr None"
    by (auto simp: proc_search_pid_def)
next
  fix p s s1 pr1
  assume a: "proc_init_waitpid cfg p s = Inr s1 \<and>
        hlookup (procs s1) p = Some pr1 \<and> p_pid pr1 \<noteq> 0"
  from proc_init_waitpid_assigned [of cfg p s s1 pr1] a
  have b: "0 \<le> p_pid pr1 \<and> p_pid pr1 \<le> MAX_PROC \<and> 1 \<le> p_pid pr1 \<and>
        slots (processTable s1) = (slots (processTable s))(nat (p_pid pr1) := Some p)"
    by simp
  with a assms show "1 \<le> p_pid pr1" "p_pid pr1 \<le> MAX_PROC"
    "proc_search_pid cfg (p_pid pr1) s1 = Inr (Some p)"
    by (simp_all add: proc_search_pid_Some_iff)
next
  fix i p q s s1
  assume a: "proc_search_pid cfg i s = Inr (Some p) \<and> q \<noteq> p \<and> proc_init_waitpid cfg q s = Inr s1"
  then obtain pr where f: "PID_MIN cfg \<le> i" "0 \<le> i" "i \<le> MAX_PROC"
      "slots (processTable s) (nat i) = Some p" "hlookup (procs s) p = Some pr" "p_pid pr = i"
    by (auto simp: proc_search_pid_Some_iff)
  from a have g: "hlookup (procs s1) p = hlookup (procs s) p"
    using proc_init_waitpid_other [of cfg q s s1 p] by auto
  from a f(4) have "slots (processTable s1) (nat i) = Some p"
    using proc_init_waitpid_slot_kept [of cfg q s s1 "nat i" p] by simp
  with f g show "proc_search_pid cfg i s1 = Inr (Some p)"
    by (simp add: proc_search_pid_Some_iff)
next
  fix i p q qr s s1
  assume a: "proc_search_pid cfg i s = Inr (Some p) \<and> hlookup (procs s) q = Some qr \<and>
        p_pid qr \<noteq> i \<and> proc_end_waitpid cfg q s = Inr s1"
  then have f: "PID_MIN cfg \<le> i" "0 \<le> i" "i \<le> MAX_PROC"
      "slots (processTable s) (nat i) = Some p" "\<exists>pr. hlookup (procs s) p = Some pr \<and> p_pid pr = i"
    by (auto simp: proc_search_pid_Some_iff)
  from a proc_end_waitpid_result [of cfg q s s1 qr]
  have g: "0 < p_pid qr" "procs s1 = procs s"
    "slots (processTable s1) = (slots (processTable s))(nat (p_pid qr) := None)"
    by simp_all
  from a g(1) f(2) have "nat (p_pid qr) \<noteq> nat i" by auto
  with f g show "proc_search_pid cfg i s1 = Inr (Some p)"
    by (simp add: proc_search_pid_Some_iff)
qed

theorem proc_search_pid_lookup_witness:
  "PID_MIN example_config = 1 \<and>
   proc_search_pid example_config 0 one_proc_kernel = Inr None \<and>
   proc_search_pid example_config (- 7) one_proc_kernel = Inr None \<and>
   proc_search_pid example_config 101 one_proc_kernel = Inr None \<and>
   (\<exists>s1. proc_init_waitpid example_config 0 one_proc_kernel = Inr s1 \<and>
         proc_search_pid example_config 1 s1 = Inr (Some 0))"
proof -
  have c: "PID_MIN example_config = 1" by (simp add: example_config_def)
  note t = proc_search_pid_lookup [OF c]
  note out = t [THEN conjunct1, rule_format]
  note reg = t [THEN conjunct2, THEN conjunct1, rule_format]
  let ?pr1 = "fresh_proc\<lparr>p_pid := 1, p_status := 0, p_sem := Some 0\<rparr>"
  let ?s1 = "one_proc_kernel\<lparr>
       processTable := \<lparr>slots = (\<lambda>i. None)(1 := Some 0), last_i = 1, is_full = False\<rparr>,
       sems := [Some 0], procs := [Some ?pr1]\<rparr>"
  have r1: "proc_search_pid example_config 0 one_proc_kernel = Inr None"
    by (rule out) simp
  have r2: "proc_search_pid example_config (- 7) one_proc_kernel = Inr None"
    by (rule out) simp
  have r3: "proc_search_pid example_config 101 one_proc_kernel = Inr None"
    by (rule out) (simp add: MAX_PROC_def)
  have "proc_init_waitpid example_config 0 one_proc_kernel = Inr ?s1 \<and>
        hlookup (procs ?s1) 0 = Some ?pr1 \<and> p_pid ?pr1 \<noteq> 0"
    using one_proc_registered by (simp add: hlookup_def one_proc_kernel_def empty_kernel_def)
  from reg [OF this] have "proc_search_pid example_config 1 ?s1 = Inr (Some 0)"
    by simp
  with one_proc_registered have r4: "\<exists>s1. proc_init_waitpid example_config 0 one_proc_kernel = Inr s1 \<and>
         proc_search_pid example_config 1 s1 = Inr (Some 0)"
    by blast
  from c r1 r2 r3 r4 show ?thesis by blast
qed

section \<open>The identifier invariant of the process table\<close>


text \<open>
  C9. The process-table invariant (an occupied slot \<open>i\<close> in \<open>1..MAX_PROC\<close> holds a live
  process whose identifier is \<open>i\<close>): a registration that assigns an identifier stores
  the process in the slot of that identifier; registration of a process that is not
  yet in the table preserves the invariant, and so does release; a lookup that returns
  a process returns one whose identifier is the one looked up, and under the invariant
  the lookup of an occupied slot returns the process stored there.
\<close>

theorem process_table_identifier_invariant:
  "(\<forall>cfg p s s1 pr1. proc_init_waitpid cfg p s = Inr s1 \<and> hlookup (procs s1) p = Some pr1 \<and>
        p_pid pr1 \<noteq> 0 \<longrightarrow>
        1 \<le> p_pid pr1 \<and> p_pid pr1 \<le> MAX_PROC \<and>
        slots (processTable s1) (nat (p_pid pr1)) = Some p) \<and>
   (\<forall>cfg p s s1. pt_inv s \<and> \<not> registered s p \<and> proc_init_waitpid cfg p s = Inr s1 \<longrightarrow> pt_inv s1) \<and>
   (\<forall>cfg p s s1. pt_inv s \<and> proc_end_waitpid cfg p s = Inr s1 \<longrightarrow> pt_inv s1) \<and>
   (\<forall>cfg i s a. proc_search_pid cfg i s = Inr (Some a) \<longrightarrow>
        (\<exists>pr. hlookup (procs s) a = Some pr \<and> p_pid pr = i)) \<and>
   (\<forall>cfg i s a. pt_inv s \<and> PID_MIN cfg \<le> i \<and> 1 \<le> i \<and> i \<le> MAX_PROC \<and>
        slots (processTable s) (nat i) = Some a \<longrightarrow>
        proc_search_pid cfg i s = Inr (Some a))"
proof (intro conjI allI impI)
  fix cfg p s s1 pr1
  assume a: "proc_init_waitpid cfg p s = Inr s1 \<and> hlookup (procs s1) p = Some pr1 \<and> p_pid pr1 \<noteq> 0"
  from proc_init_waitpid_assigned [of cfg p s s1 pr1] a
  have "0 \<le> p_pid pr1" "p_pid pr1 \<le> MAX_PROC"
    "slots (processTable s1) = (slots (processTable s))(nat (p_pid pr1) := Some p)"
    by simp_all
  with a show "1 \<le> p_pid pr1" "p_pid pr1 \<le> MAX_PROC"
    "slots (processTable s1) (nat (p_pid pr1)) = Some p"
    by simp_all
next
  fix cfg p s s1
  assume "pt_inv s \<and> \<not> registered s p \<and> proc_init_waitpid cfg p s = Inr s1"
  then show "pt_inv s1" using pt_inv_proc_init_waitpid by blast
next
  fix cfg p s s1
  assume "pt_inv s \<and> proc_end_waitpid cfg p s = Inr s1"
  then show "pt_inv s1" using pt_inv_proc_end_waitpid by blast
next
  fix cfg i s a
  assume "proc_search_pid cfg i s = Inr (Some a)"
  then show "\<exists>pr. hlookup (procs s) a = Some pr \<and> p_pid pr = i"
    by (simp add: proc_search_pid_Some_iff)
next
  fix cfg :: config and i s a
  assume a: "pt_inv s \<and> PID_MIN cfg \<le> i \<and> 1 \<le> i \<and> i \<le> MAX_PROC \<and>
        slots (processTable s) (nat i) = Some a"
  then have "1 \<le> nat i \<and> nat i \<le> nat MAX_PROC" by linarith
  with a have "slot_ok s (nat i)" unfolding pt_inv_iff by blast
  with a show "proc_search_pid cfg i s = Inr (Some a)"
    by (auto simp: proc_search_pid_Some_iff slot_ok_def split: option.splits)
qed

lemma pt_inv_one_proc_kernel: "pt_inv one_proc_kernel"
  by (simp add: pt_inv_iff slot_ok_def one_proc_kernel_def empty_kernel_def)

lemma not_registered_one_proc_kernel: "\<not> registered one_proc_kernel 0"
  by (simp add: registered_iff one_proc_kernel_def empty_kernel_def)

theorem process_table_identifier_invariant_witness:
  "pt_inv one_proc_kernel \<and> \<not> registered one_proc_kernel 0 \<and>
   (\<exists>s1 pr1. proc_init_waitpid example_config 0 one_proc_kernel = Inr s1 \<and>
      hlookup (procs s1) 0 = Some pr1 \<and> p_pid pr1 = 1 \<and>
      slots (processTable s1) 1 = Some 0 \<and> pt_inv s1 \<and>
      proc_search_pid example_config 1 s1 = Inr (Some 0) \<and>
      (\<exists>s2. proc_end_waitpid example_config 0 s1 = Inr s2 \<and> pt_inv s2 \<and>
         slots (processTable s2) 1 = None))"
proof -
  note t = process_table_identifier_invariant
  note assigned = t [THEN conjunct1, rule_format]
  note reg = t [THEN conjunct2, THEN conjunct1, rule_format]
  note rel = t [THEN conjunct2, THEN conjunct2, THEN conjunct1, rule_format]
  note look = t [THEN conjunct2, THEN conjunct2, THEN conjunct2, THEN conjunct2, rule_format]
  let ?pr1 = "fresh_proc\<lparr>p_pid := 1, p_status := 0, p_sem := Some 0\<rparr>"
  let ?s1 = "one_proc_kernel\<lparr>
       processTable := \<lparr>slots = (\<lambda>i. None)(1 := Some 0), last_i = 1, is_full = False\<rparr>,
       sems := [Some 0], procs := [Some ?pr1]\<rparr>"
  let ?s2 = "?s1\<lparr>processTable := \<lparr>slots = (\<lambda>i. None), last_i = 1, is_full = False\<rparr>, sems := [None]\<rparr>"
  have h: "hlookup (procs ?s1) 0 = Some ?pr1"
    by (simp add: hlookup_def)
  have "proc_init_waitpid example_config 0 one_proc_kernel = Inr ?s1 \<and>
        hlookup (procs ?s1) 0 = Some ?pr1 \<and> p_pid ?pr1 \<noteq> 0"
    using one_proc_registered h by simp
  from assigned [OF this] have sl: "slots (processTable ?s1) 1 = Some 0" by simp
  have "pt_inv one_proc_kernel \<and> \<not> registered one_proc_kernel 0 \<and>
        proc_init_waitpid example_config 0 one_proc_kernel = Inr ?s1"
    using pt_inv_one_proc_kernel not_registered_one_proc_kernel one_proc_registered by simp
  from reg [OF this] have inv1: "pt_inv ?s1" .
  have "pt_inv ?s1 \<and> PID_MIN example_config \<le> 1 \<and> (1::int) \<le> 1 \<and> 1 \<le> MAX_PROC \<and>
        slots (processTable ?s1) (nat 1) = Some 0"
    using inv1 sl by (simp add: example_config_def MAX_PROC_def)
  from look [OF this] have lk: "proc_search_pid example_config 1 ?s1 = Inr (Some 0)" .
  have e: "proc_end_waitpid example_config 0 ?s1 = Inr ?s2"
    by (simp add: proc_end_waitpid_def hlookup_def Let_def MAX_PROC_def example_config_def
        sem_destroy_def hfree_def one_proc_kernel_def empty_kernel_def fresh_proc_def fun_eq_iff)
  from rel [of ?s1 example_config 0 ?s2] inv1 e have inv2: "pt_inv ?s2" by blast
  have n: "slots (processTable ?s2) 1 = None" by simp
  have p1: "p_pid ?pr1 = 1" by simp
  from e inv2 n have "\<exists>s2. proc_end_waitpid example_config 0 ?s1 = Inr s2 \<and> pt_inv s2 \<and>
         slots (processTable s2) 1 = None"
    by blast
  with one_proc_registered h p1 sl inv1 lk
  have "\<exists>s1 pr1. proc_init_waitpid example_config 0 one_proc_kernel = Inr s1 \<and>
      hlookup (procs s1) 0 = Some pr1 \<and> p_pid pr1 = 1 \<and>
      slots (processTable s1) 1 = Some 0 \<and> pt_inv s1 \<and>
      proc_search_pid example_config 1 s1 = Inr (Some 0) \<and>
      (\<exists>s2. proc_end_waitpid example_config 0 s1 = Inr s2 \<and> pt_inv s2 \<and>
         slots (processTable s2) 1 = None)"
    by blast
  with pt_inv_one_proc_kernel not_registered_one_proc_kernel show ?thesis by blast
qed

section \<open>Creation against a table with no slot to give\<close>


lemma allocs_succeed_next:
  "allocs_succeed n s \<Longrightarrow> alloc_fail s' = tl (alloc_fail s) \<Longrightarrow> allocs_succeed (n - 1) s'"
  by (cases "alloc_fail s"; cases n) (auto simp: allocs_succeed_def)

lemma allocs_succeed_head:
  "allocs_succeed n s \<Longrightarrow> 0 < n \<Longrightarrow> (case alloc_fail s of [] \<Rightarrow> False | b # bs \<Rightarrow> b) = False"
  by (cases "alloc_fail s"; cases n) (auto simp: allocs_succeed_def)

lemma kmalloc_proc_ok:
  "allocs_succeed n s \<Longrightarrow> 0 < n \<Longrightarrow>
   kmalloc_proc v s = (Some (length (procs s)), s\<lparr>alloc_fail := tl (alloc_fail s), procs := procs s @ [Some v]\<rparr>)"
  by (simp add: kmalloc_proc_def next_alloc_fails_def allocs_succeed_head)

lemma kstrdup_ok:
  "allocs_succeed n s \<Longrightarrow> 0 < n \<Longrightarrow>
   kstrdup v s = (Some (length (names s)), s\<lparr>alloc_fail := tl (alloc_fail s), names := names s @ [Some v]\<rparr>)"
  by (simp add: kstrdup_def next_alloc_fails_def allocs_succeed_head)

lemma lock_create_ok:
  "allocs_succeed n s \<Longrightarrow> 0 < n \<Longrightarrow>
   lock_create s = (Some (length (locks s)), s\<lparr>alloc_fail := tl (alloc_fail s), locks := locks s @ [Some False]\<rparr>)"
  by (simp add: lock_create_def next_alloc_fails_def allocs_succeed_head)

text \<open>
  A creation whose three allocations succeed and whose scan finds no slot returns
  \<open>NULL\<close> and gives back the PCB, the name and the file-table lock.
\<close>

lemma proc_create_scan_fails:
  assumes ok: "allocs_succeed 3 s"
    and scan: "proc_init_waitpid_scan (slots (processTable s)) (last_i (processTable s))
        (if last_i (processTable s) + 1 > MAX_PROC then 1 else last_i (processTable s) + 1) = Some (Inr None)"
  shows "proc_create cfg name s =
     Inr (None, s\<lparr>alloc_fail := tl (tl (tl (alloc_fail s))),
                  procs := procs s @ [None], names := names s @ [None], locks := locks s @ [None],
                  trace := trace s @ [SPINLOCK_INIT (length (procs s)), SPINLOCK_CLEANUP (length (procs s))],
                  processTable := (processTable s)\<lparr>is_full := True\<rparr>\<rparr>)"
proof -
  define a where "a = length (procs s)"
  define n where "n = length (names s)"
  define l where "l = length (locks s)"
  define pr2 where "pr2 = fresh_proc\<lparr>p_name := Some n, p_numthreads := 0\<rparr>"
  define pr3 where "pr3 = pr2\<lparr>p_addrspace := None, p_cwd := None, p_exited := 0, parent_proc := None\<rparr>"
  define pr4 where "pr4 = pr3\<lparr>ft_lock := Some l\<rparr>"
  define pr5 where "pr5 = pr4\<lparr>p_pid := 0\<rparr>"
  define s1 where "s1 = s\<lparr>alloc_fail := tl (alloc_fail s), procs := procs s @ [Some fresh_proc]\<rparr>"
  define s2 where "s2 = s1\<lparr>alloc_fail := tl (alloc_fail s1), names := names s1 @ [Some name]\<rparr>"
  define s3 where "s3 = s2\<lparr>procs := hupdate (procs s2) a pr2\<rparr>"
  define s4 where "s4 = (emit (SPINLOCK_INIT a) s3)\<lparr>procs := hupdate (procs s3) a pr3\<rparr>"
  define s5 where "s5 = s4\<lparr>alloc_fail := tl (alloc_fail s4), locks := locks s4 @ [Some False]\<rparr>"
  define s6 where "s6 = s5\<lparr>procs := hupdate (procs s5) a pr4\<rparr>"
  define s7 where "s7 = s6\<lparr>procs := hupdate (procs s6) a pr5,
      processTable := (processTable s6)\<lparr>is_full := True\<rparr>\<rparr>"
  define s8 where "s8 = s7\<lparr>names := hfree (names s7) n\<rparr>"
  define s9 where "s9 = (emit (SPINLOCK_CLEANUP a) s8)\<lparr>locks := hfree (locks s8) l\<rparr>"
  define s10 where "s10 = s9\<lparr>procs := hfree (procs s9) a\<rparr>"
  have k1: "kmalloc_proc fresh_proc s = (Some a, s1)"
    using ok by (simp add: kmalloc_proc_ok [of 3] a_def s1_def)
  have ok1: "allocs_succeed 2 s1"
    using allocs_succeed_next [OF ok, of s1] by (simp add: s1_def)
  have k2: "kstrdup name s1 = (Some n, s2)"
    using kstrdup_ok [OF ok1, of name] by (simp add: s2_def n_def s1_def)
  have ok2: "allocs_succeed 1 s2"
    using allocs_succeed_next [OF ok1, of s2] by (simp add: s2_def)
  have h2: "hlookup (procs s2) a = Some fresh_proc"
    by (simp add: s2_def s1_def a_def hlookup_def)
  have w3: "proc_write a (\<lambda>pr. pr\<lparr>p_name := Some n, p_numthreads := 0\<rparr>) s2 = Inr s3"
    by (simp add: proc_write_def h2 s3_def pr2_def)
  have h3: "hlookup (procs (emit (SPINLOCK_INIT a) s3)) a = Some pr2"
    by (simp add: emit_def s3_def s2_def s1_def a_def hlookup_def hupdate_def)
  have w4: "proc_write a (\<lambda>pr. pr\<lparr>p_addrspace := None, p_cwd := None, p_exited := 0, parent_proc := None\<rparr>)
              (emit (SPINLOCK_INIT a) s3) = Inr s4"
    by (simp add: proc_write_def h3 s4_def pr3_def) (simp add: emit_def)
  have ok4: "allocs_succeed 1 s4"
    using ok2 by (simp add: allocs_succeed_def s4_def s3_def emit_def)
  have k5: "lock_create s4 = (Some l, s5)"
    using lock_create_ok [OF ok4] by (simp add: s5_def l_def s4_def s3_def s2_def s1_def emit_def)
  have h5: "hlookup (procs s5) a = Some pr3"
    by (simp add: s5_def s4_def s3_def s2_def s1_def a_def hlookup_def hupdate_def)
  have w6: "proc_write a (\<lambda>pr. pr\<lparr>ft_lock := Some l\<rparr>) s5 = Inr s6"
    by (simp add: proc_write_def h5 s6_def pr4_def)
  have h6: "hlookup (procs s6) a = Some pr4"
    by (simp add: s6_def s5_def s4_def s3_def s2_def s1_def a_def hlookup_def hupdate_def)
  have pt6: "processTable s6 = processTable s"
    by (simp add: s6_def s5_def s4_def s3_def s2_def s1_def emit_def)
  have i7: "proc_init_waitpid cfg a s6 = Inr s7"
    using scan by (simp add: proc_init_waitpid_def h6 pt6 Let_def s7_def pr5_def)
  have f7: "is_proc_table_full s7"
    by (simp add: is_proc_table_full_def s7_def)
  have h7: "hlookup (procs s7) a = Some pr5"
    by (simp add: s7_def s6_def s5_def s4_def s3_def s2_def s1_def a_def hlookup_def hupdate_def)
  have r7: "proc_read a s7 = Inr pr5"
    by (simp add: proc_read_def h7)
  have nm: "p_name pr5 = Some n" "ft_lock pr5 = Some l"
    by (simp_all add: pr5_def pr4_def pr3_def pr2_def)
  have n7: "hlookup (names s7) n = Some name"
    by (simp add: s7_def s6_def s5_def s4_def s3_def s2_def s1_def n_def hlookup_def emit_def)
  have f8: "kfree_name (Some n) s7 = Inr s8"
    by (simp add: kfree_name_def n7 s8_def)
  have l8: "hlookup (locks (emit (SPINLOCK_CLEANUP a) s8)) l = Some False"
    by (simp add: s8_def s7_def s6_def s5_def s4_def s3_def s2_def s1_def l_def hlookup_def emit_def)
  have d9: "lock_destroy (Some l) (emit (SPINLOCK_CLEANUP a) s8) = Inr s9"
    by (simp add: lock_destroy_def l8 s9_def) (simp add: emit_def)
  have h9: "hlookup (procs s9) a = Some pr5"
    by (simp add: s9_def s8_def s7_def s6_def s5_def s4_def s3_def s2_def s1_def a_def hlookup_def
        hupdate_def emit_def)
  have f10: "kfree_proc (Some a) s9 = Inr s10"
    by (simp add: kfree_proc_def h9 s10_def)
  have run: "proc_create cfg name s = Inr (None, s10)"
    by (simp add: proc_create_def k1 k2 w3 w4 k5 w6 i7 f7 r7 nm f8 d9 f10 andthen_def)
  have "s10 = s\<lparr>alloc_fail := tl (tl (tl (alloc_fail s))),
                  procs := procs s @ [None], names := names s @ [None], locks := locks s @ [None],
                  trace := trace s @ [SPINLOCK_INIT (length (procs s)), SPINLOCK_CLEANUP (length (procs s))],
                  processTable := (processTable s)\<lparr>is_full := True\<rparr>\<rparr>"
    by (simp add: s10_def s9_def s8_def s7_def s6_def s5_def s4_def s3_def s2_def s1_def a_def n_def l_def
        emit_def hupdate_def hfree_def)
  with run show ?thesis by simp
qed


lemma table_full_iff:
  "table_full s \<longleftrightarrow> (\<forall>i. 1 \<le> i \<and> i \<le> nat MAX_PROC \<longrightarrow> slots (processTable s) i \<noteq> None)"
  by (auto simp: table_full_def list_all_iff)

lemma free_slot_besides_iff:
  "free_slot_besides s k \<longleftrightarrow>
     (\<exists>i. 1 \<le> i \<and> i \<le> nat MAX_PROC \<and> slots (processTable s) i = None \<and> int i \<noteq> k)"
  by (auto simp: free_slot_besides_def list_ex_iff)

text \<open>Release clears the full flag.\<close>

lemma proc_end_waitpid_clears_full:
  "proc_end_waitpid cfg p s = Inr s1 \<Longrightarrow> \<not> is_proc_table_full s1"
  using proc_end_waitpid_live [of cfg p s s1] proc_end_waitpid_result [of cfg p s s1]
  by (auto simp: is_proc_table_full_def)

text \<open>
  A registration assigns a free identifier whenever some slot other than the one
  at \<open>last_i\<close> is free.
\<close>

lemma proc_init_waitpid_finds_free_slot:
  assumes l: "last_i_ok s" and f: "free_slot_besides s (last_i (processTable s))"
    and p: "hlookup (procs s) p = Some pr"
  shows "\<exists>s1 pr1. proc_init_waitpid cfg p s = Inr s1 \<and> hlookup (procs s1) p = Some pr1 \<and>
      1 \<le> p_pid pr1 \<and> p_pid pr1 \<le> MAX_PROC \<and>
      slots (processTable s) (nat (p_pid pr1)) = None \<and>
      slots (processTable s1) (nat (p_pid pr1)) = Some p \<and>
      is_full (processTable s1) = is_full (processTable s)"
proof -
  from f obtain i where i: "1 \<le> i" "i \<le> nat MAX_PROC" "slots (processTable s) i = None"
      "int i \<noteq> last_i (processTable s)"
    by (auto simp: free_slot_besides_iff)
  let ?st = "if last_i (processTable s) + 1 > MAX_PROC then 1 else last_i (processTable s) + 1"
  have "\<exists>j. proc_init_waitpid_scan (slots (processTable s)) (last_i (processTable s)) ?st = Some (Inr (Some j))"
    by (rule scan_finds [where t = "int i"]) (use l i in \<open>auto simp: last_i_ok_def\<close>)
  then obtain j where j: "proc_init_waitpid_scan (slots (processTable s)) (last_i (processTable s)) ?st
       = Some (Inr (Some j))" ..
  have lt: "p < length (procs s)" using p by (rule hlookup_less)
  from j p have "\<exists>s1. proc_init_waitpid cfg p s = Inr s1"
    by (cases "USE_SEMAPHORE_FOR_WAITPID cfg")
       (simp_all add: proc_init_waitpid_def Let_def split: prod.split)
  then obtain s1 where run: "proc_init_waitpid cfg p s = Inr s1" ..
  from proc_init_waitpid_result [OF run] obtain pr1 where p1: "hlookup (procs s1) p = Some pr1"
    by auto
  from j p lt run p1 have "p_pid pr1 = j"
    by (cases "USE_SEMAPHORE_FOR_WAITPID cfg")
       (auto simp: proc_init_waitpid_def Let_def create_defs hlookup_hupdate split: prod.splits if_splits)
  moreover from scan_found_Some [OF j] l have "1 \<le> j"
    by (auto simp: last_i_ok_def MAX_PROC_def split: if_splits)
  ultimately have "p_pid pr1 \<noteq> 0" by simp
  from proc_init_waitpid_assigned [OF run p1 this] \<open>p_pid pr1 = j\<close> \<open>1 \<le> j\<close> run p1
  show ?thesis by auto
qed

text \<open>
  C4. When every slot of the table is occupied (and \<open>last_i\<close> is the index of a slot, as
  it is once a registration has succeeded) and the PCB, the name and the file-table
  lock have been allocated, \<open>proc_create\<close> returns \<open>NULL\<close>; the table's slots are as
  before, so the new process is not registered; the full flag is set; and the PCBs,
  names and locks that are live afterwards are those that were live before: the new
  PCB, its name and its lock have been given back, and its spinlock cleaned up.
\<close>

theorem proc_create_full_table_rolls_back:
  assumes "table_full s" "1 \<le> last_i (processTable s)" "last_i (processTable s) \<le> MAX_PROC"
    and "allocs_succeed 3 s"
  shows "\<exists>s'. proc_create cfg name s = Inr (None, s') \<and>
      slots (processTable s') = slots (processTable s) \<and> is_proc_table_full s' \<and>
      (\<forall>a. hlookup (procs s') a = hlookup (procs s) a) \<and>
      (\<forall>a. hlookup (names s') a = hlookup (names s) a) \<and>
      (\<forall>a. hlookup (locks s') a = hlookup (locks s) a) \<and>
      sems s' = sems s \<and> cvs s' = cvs s \<and> openfiles s' = openfiles s \<and>
      trace s' = trace s @ [SPINLOCK_INIT (length (procs s)), SPINLOCK_CLEANUP (length (procs s))]"
proof -
  let ?st = "if last_i (processTable s) + 1 > MAX_PROC then 1 else last_i (processTable s) + 1"
  have "proc_init_waitpid_scan (slots (processTable s)) (last_i (processTable s)) ?st = Some (Inr None)"
  proof (rule scan_full)
    fix k assume "1 \<le> k" "k \<le> MAX_PROC" "k \<noteq> last_i (processTable s)"
    then have "1 \<le> nat k \<and> nat k \<le> nat MAX_PROC" by linarith
    with assms(1) show "slots (processTable s) (nat k) \<noteq> None"
      unfolding table_full_iff by blast
  qed (use assms in \<open>auto simp: MAX_PROC_def\<close>)
  from proc_create_scan_fails [OF assms(4) this, of cfg name] show ?thesis
    by (simp add: is_proc_table_full_def hlookup_snoc) (simp add: hlookup_def)
qed

lemma table_full_full_kernel: "table_full full_kernel"
  by (simp add: table_full_iff full_kernel_def empty_kernel_def MAX_PROC_def)

theorem proc_create_full_table_rolls_back_witness:
  "table_full full_kernel \<and> 1 \<le> last_i (processTable full_kernel) \<and>
   last_i (processTable full_kernel) \<le> MAX_PROC \<and> allocs_succeed 3 full_kernel \<and>
   (\<exists>s'. proc_create example_config ''sh'' full_kernel = Inr (None, s') \<and>
      is_proc_table_full s' \<and> hlookup (procs s') 100 = None \<and>
      hlookup (names s') 100 = None \<and> hlookup (locks s') 100 = None)"
proof -
  have a: "1 \<le> last_i (processTable full_kernel)" "last_i (processTable full_kernel) \<le> MAX_PROC"
    "allocs_succeed 3 full_kernel"
    by (simp_all add: full_kernel_def empty_kernel_def MAX_PROC_def allocs_succeed_def)
  have n: "hlookup (procs full_kernel) 100 = None" "hlookup (names full_kernel) 100 = None"
    "hlookup (locks full_kernel) 100 = None"
    by (simp_all add: full_kernel_def empty_kernel_def hlookup_def)
  from proc_create_full_table_rolls_back [OF table_full_full_kernel a, of example_config "''sh''"] n
  have "\<exists>s'. proc_create example_config ''sh'' full_kernel = Inr (None, s') \<and>
      is_proc_table_full s' \<and> hlookup (procs s') 100 = None \<and>
      hlookup (names s') 100 = None \<and> hlookup (locks s') 100 = None"
    by auto
  with table_full_full_kernel a show ?thesis by blast
qed

section \<open>Release followed by creation\<close>


text \<open>
  C1. With all 100 slots occupied and slot 100 the last one assigned, releasing the
  process with identifier 100 clears the full flag and empties slot 100; the creation
  that follows scans slots 1 to 99, stops at \<open>last_i = 100\<close> without testing that
  slot, sets the full flag and returns \<open>NULL\<close>, although slot 100 is free.
\<close>

theorem release_then_create_reports_full:
  "\<exists>s1 s2. proc_end_waitpid example_config 99 full_kernel = Inr s1 \<and>
      \<not> is_proc_table_full s1 \<and> slots (processTable s1) 100 = None \<and>
      proc_create example_config ''sh'' s1 = Inr (None, s2) \<and>
      is_proc_table_full s2 \<and> slots (processTable s2) 100 = None"
proof -
  let ?s1 = "full_kernel\<lparr>
      processTable := \<lparr>slots = (\<lambda>i. if 1 \<le> i \<and> i \<le> 99 then Some (i - 1) else None),
                        last_i = 100, is_full = False\<rparr>,
      sems := (replicate 100 (Some 0))[99 := None]\<rparr>"
  have h: "hlookup (procs full_kernel) 99 =
      Some (fresh_proc\<lparr>p_name := Some 99, ft_lock := Some 99, p_pid := 100, p_sem := Some 99\<rparr>)"
    by (simp add: full_kernel_def empty_kernel_def hlookup_def)
  have sl: "(\<lambda>i. if 1 \<le> i \<and> i \<le> 100 then Some (i - 1) else None)(100 := None)
      = (\<lambda>i::nat. if 1 \<le> i \<and> i \<le> 99 then Some (i - 1) else None)"
    by (auto simp: fun_eq_iff)
  have e: "proc_end_waitpid example_config 99 full_kernel = Inr ?s1"
    using sl
    by (simp add: proc_end_waitpid_def h Let_def MAX_PROC_def example_config_def sem_destroy_def
        hfree_def) (simp add: full_kernel_def empty_kernel_def hlookup_def hfree_def)
  have a: "allocs_succeed 3 ?s1"
    by (simp add: allocs_succeed_def full_kernel_def empty_kernel_def)
  have "proc_init_waitpid_scan (slots (processTable ?s1)) (last_i (processTable ?s1))
        (if last_i (processTable ?s1) + 1 > MAX_PROC then 1 else last_i (processTable ?s1) + 1)
        = Some (Inr None)"
  proof (rule scan_full)
    fix k :: int
    assume "1 \<le> k" "k \<le> MAX_PROC" "k \<noteq> last_i (processTable ?s1)"
    then have "1 \<le> nat k \<and> nat k \<le> 99" by (simp add: MAX_PROC_def) linarith
    then show "slots (processTable ?s1) (nat k) \<noteq> None"
      by simp
  qed (simp_all add: MAX_PROC_def)
  from proc_create_scan_fails [OF a this, of example_config "''sh''"]
  have c: "\<exists>s2. proc_create example_config ''sh'' ?s1 = Inr (None, s2) \<and>
      is_proc_table_full s2 \<and> slots (processTable s2) 100 = None"
    by (simp add: is_proc_table_full_def)
  have "\<not> is_proc_table_full ?s1" "slots (processTable ?s1) 100 = None"
    by (simp_all add: is_proc_table_full_def)
  with e c show ?thesis by blast
qed

section \<open>Severing the parent links\<close>


text \<open>One iteration of the loop of \<open>proc_rm_parent_link\<close>.\<close>

lemma proc_rm_parent_link_step_result:
  assumes "proc_rm_parent_link_step pid i s = Inr s1"
  shows "0 \<le> i \<and> i \<le> MAX_PROC \<and> s1\<lparr>procs := procs s\<rparr> = s \<and> length (procs s1) = length (procs s) \<and>
    (\<forall>a. hlookup (procs s1) a =
       (case hlookup (procs s) a of
          None \<Rightarrow> None
        | Some pr \<Rightarrow> Some (if slots (processTable s) (nat i) = Some a \<and> parent_has_pid s pr pid
                          then pr\<lparr>parent_proc := None\<rparr> else pr)))"
proof -
  from assms have r: "0 \<le> i" "i \<le> MAX_PROC"
    by (auto simp: proc_rm_parent_link_step_def split: if_splits)
  show ?thesis
  proof (cases "slots (processTable s) (nat i)")
    case None
    with assms r show ?thesis
      by (auto simp: proc_rm_parent_link_step_def split: option.splits)
  next
    case (Some b)
    with assms r obtain pr where pr: "hlookup (procs s) b = Some pr"
      by (auto simp: proc_rm_parent_link_step_def split: option.splits)
    show ?thesis
    proof (cases "parent_has_pid s pr pid")
      case True
      with assms r Some pr have "s1 = s\<lparr>procs := hupdate (procs s) b (pr\<lparr>parent_proc := None\<rparr>)\<rparr>"
        by (auto simp: proc_rm_parent_link_step_def parent_has_pid_def split: option.splits if_splits)
      with r Some pr True show ?thesis
        by (auto simp: length_hupdate hlookup_hupdate dest: hlookup_less split: option.splits)
    next
      case False
      with assms r Some pr have "s1 = s"
        by (auto simp: proc_rm_parent_link_step_def parent_has_pid_def split: option.splits if_splits)
      with r Some pr False show ?thesis
        by (auto split: option.splits)
    qed
  qed
qed

lemma proc_rm_parent_link_step_pid:
  assumes "proc_rm_parent_link_step pid i s = Inr s1"
  shows "parent_has_pid s1 x k = parent_has_pid s x k"
proof (cases "parent_proc x")
  case None
  then show ?thesis by (simp add: parent_has_pid_def)
next
  case (Some q)
  from proc_rm_parent_link_step_result [OF assms]
  have "hlookup (procs s1) q =
       (case hlookup (procs s) q of
          None \<Rightarrow> None
        | Some pr \<Rightarrow> Some (if slots (processTable s) (nat i) = Some q \<and> parent_has_pid s pr pid
                          then pr\<lparr>parent_proc := None\<rparr> else pr))"
    by blast
  with Some show ?thesis
    by (auto simp: parent_has_pid_def split: option.splits)
qed

lemma proc_rm_parent_link_step_slots:
  "proc_rm_parent_link_step pid i s = Inr s1 \<Longrightarrow> processTable s1 = processTable s"
  by (auto simp: proc_rm_parent_link_step_def split: option.splits if_splits)

text \<open>The loop from index \<open>i\<close>.\<close>

lemma proc_rm_parent_link_loop_result:
  "proc_rm_parent_link_loop pid i s = Inr s' \<Longrightarrow>
   s'\<lparr>procs := procs s\<rparr> = s \<and> length (procs s') = length (procs s) \<and>
    (\<forall>a. hlookup (procs s') a =
       (case hlookup (procs s) a of
          None \<Rightarrow> None
        | Some pr \<Rightarrow> Some (if (\<exists>j. i \<le> j \<and> j \<le> MAX_PROC \<and> slots (processTable s) (nat j) = Some a)
                              \<and> parent_has_pid s pr pid
                          then pr\<lparr>parent_proc := None\<rparr> else pr)))"
proof (induction pid i s rule: proc_rm_parent_link_loop.induct)
  case (1 pid i s)
  show ?case
  proof (cases "i \<le> MAX_PROC")
    case False
    with "1.prems" have "s' = s" by (simp add: proc_rm_parent_link_loop.simps [of pid i s])
    with False show ?thesis by (auto split: option.splits)
  next
    case True
    with "1.prems" obtain s1 where st: "proc_rm_parent_link_step pid i s = Inr s1"
      and rest: "proc_rm_parent_link_loop pid (i + 1) s1 = Inr s'"
      by (auto simp: proc_rm_parent_link_loop.simps [of pid i s] split: sum.splits)
    note IH = "1.IH" [OF True st rest]
    note S = proc_rm_parent_link_step_result [OF st]
    note P = proc_rm_parent_link_step_pid [OF st]
    note T = proc_rm_parent_link_step_slots [OF st]
    from S have i0: "0 \<le> i" by simp
    have e: "s'\<lparr>procs := procs s\<rparr> = s"
    proof -
      from IH have "s'\<lparr>procs := procs s1\<rparr> = s1" by simp
      then have "(s'\<lparr>procs := procs s1\<rparr>)\<lparr>procs := procs s\<rparr> = s1\<lparr>procs := procs s\<rparr>" by simp
      with S show ?thesis by simp
    qed
    have l: "length (procs s') = length (procs s)" using IH S by simp
    have "hlookup (procs s') a =
       (case hlookup (procs s) a of
          None \<Rightarrow> None
        | Some pr \<Rightarrow> Some (if (\<exists>j. i \<le> j \<and> j \<le> MAX_PROC \<and> slots (processTable s) (nat j) = Some a)
                              \<and> parent_has_pid s pr pid
                          then pr\<lparr>parent_proc := None\<rparr> else pr))" for a
    proof (cases "hlookup (procs s) a")
      case None
      with S have "hlookup (procs s1) a = None" by simp
      with IH None show ?thesis by simp
    next
      case (Some pr)
      let ?here = "slots (processTable s) (nat i) = Some a"
      let ?later = "\<exists>j. i + 1 \<le> j \<and> j \<le> MAX_PROC \<and> slots (processTable s) (nat j) = Some a"
      have split: "(\<exists>j. i \<le> j \<and> j \<le> MAX_PROC \<and> slots (processTable s) (nat j) = Some a) \<longleftrightarrow> ?here \<or> ?later"
      proof
        assume "\<exists>j. i \<le> j \<and> j \<le> MAX_PROC \<and> slots (processTable s) (nat j) = Some a"
        then obtain j where j: "i \<le> j" "j \<le> MAX_PROC" "slots (processTable s) (nat j) = Some a" by blast
        show "?here \<or> ?later"
        proof (cases "j = i")
          case True with j show ?thesis by simp
        next
          case False with j have "i + 1 \<le> j" by simp
          with j show ?thesis by blast
        qed
      next
        assume "?here \<or> ?later"
        then show "\<exists>j. i \<le> j \<and> j \<le> MAX_PROC \<and> slots (processTable s) (nat j) = Some a"
        proof
          assume ?here with True show ?thesis by blast
        next
          assume ?later
          then obtain j where "i + 1 \<le> j" "j \<le> MAX_PROC" "slots (processTable s) (nat j) = Some a" by blast
          then have "i \<le> j \<and> j \<le> MAX_PROC \<and> slots (processTable s) (nat j) = Some a" by simp
          then show ?thesis by blast
        qed
      qed
      show ?thesis
      proof (cases "?here \<and> parent_has_pid s pr pid")
        case True
        with S Some have "hlookup (procs s1) a = Some (pr\<lparr>parent_proc := None\<rparr>)" by simp
        moreover have "\<not> parent_has_pid s1 (pr\<lparr>parent_proc := None\<rparr>) pid"
          by (simp add: parent_has_pid_def)
        ultimately have "hlookup (procs s') a = Some (pr\<lparr>parent_proc := None\<rparr>)"
          using IH by simp
        with Some True split show ?thesis by simp
      next
        case False
        with S Some have "hlookup (procs s1) a = Some pr" by auto
        with IH have "hlookup (procs s') a =
            Some (if (\<exists>j. i + 1 \<le> j \<and> j \<le> MAX_PROC \<and> slots (processTable s1) (nat j) = Some a)
                              \<and> parent_has_pid s1 pr pid
                          then pr\<lparr>parent_proc := None\<rparr> else pr)"
          by simp
        with Some False split P T show ?thesis by auto
      qed
    qed
    with e l show ?thesis by blast
  qed
qed


lemma links_valid_iff:
  "links_valid s \<longleftrightarrow>
     (\<forall>i. 1 \<le> i \<and> i \<le> nat MAX_PROC \<longrightarrow>
        (case slots (processTable s) i of
           None \<Rightarrow> True
         | Some a \<Rightarrow> (case hlookup (procs s) a of
                        None \<Rightarrow> False
                      | Some pr \<Rightarrow> (case parent_proc pr of
                                     None \<Rightarrow> True
                                   | Some q \<Rightarrow> hlookup (procs s) q \<noteq> None))))"
  by (auto simp: links_valid_def list_all_iff)

lemma proc_rm_parent_link_step_total:
  assumes "links_valid s" "1 \<le> i" "i \<le> MAX_PROC"
  shows "\<exists>s1. proc_rm_parent_link_step pid i s = Inr s1"
proof -
  from assms(2,3) have "1 \<le> nat i \<and> nat i \<le> nat MAX_PROC" by linarith
  with assms(1) have "case slots (processTable s) (nat i) of
           None \<Rightarrow> True
         | Some a \<Rightarrow> (case hlookup (procs s) a of
                        None \<Rightarrow> False
                      | Some pr \<Rightarrow> (case parent_proc pr of
                                     None \<Rightarrow> True
                                   | Some q \<Rightarrow> hlookup (procs s) q \<noteq> None))"
    unfolding links_valid_iff by blast
  with assms(2,3) show ?thesis
    by (auto simp: proc_rm_parent_link_step_def split: option.splits)
qed

lemma proc_rm_parent_link_step_links_valid:
  assumes "links_valid s" "proc_rm_parent_link_step pid i s = Inr s1"
  shows "links_valid s1"
proof -
  note S = proc_rm_parent_link_step_result [OF assms(2)]
  note T = proc_rm_parent_link_step_slots [OF assms(2)]
  from S have L: "hlookup (procs s1) a =
       (case hlookup (procs s) a of
          None \<Rightarrow> None
        | Some pr \<Rightarrow> Some (if slots (processTable s) (nat i) = Some a \<and> parent_has_pid s pr pid
                          then pr\<lparr>parent_proc := None\<rparr> else pr))" for a
    by blast
  show ?thesis
    unfolding links_valid_iff
  proof (intro allI impI)
    fix k assume "1 \<le> k \<and> k \<le> nat MAX_PROC"
    with assms(1) have v: "case slots (processTable s) k of
           None \<Rightarrow> True
         | Some a \<Rightarrow> (case hlookup (procs s) a of
                        None \<Rightarrow> False
                      | Some pr \<Rightarrow> (case parent_proc pr of
                                     None \<Rightarrow> True
                                   | Some q \<Rightarrow> hlookup (procs s) q \<noteq> None))"
      unfolding links_valid_iff by blast
    show "case slots (processTable s1) k of
           None \<Rightarrow> True
         | Some a \<Rightarrow> (case hlookup (procs s1) a of
                        None \<Rightarrow> False
                      | Some pr \<Rightarrow> (case parent_proc pr of
                                     None \<Rightarrow> True
                                   | Some q \<Rightarrow> hlookup (procs s1) q \<noteq> None))"
    proof (cases "slots (processTable s) k")
      case None
      with T show ?thesis by simp
    next
      case (Some a)
      with v obtain pr where pr: "hlookup (procs s) a = Some pr"
        by (auto split: option.splits)
      show ?thesis
      proof (cases "parent_proc pr")
        case None
        with Some pr T L [of a] show ?thesis by (auto split: option.splits)
      next
        case q: (Some q)
        with v Some pr obtain qr where "hlookup (procs s) q = Some qr" by auto
        with L [of q] have "hlookup (procs s1) q \<noteq> None" by simp
        with Some pr q T L [of a] show ?thesis by (auto split: option.splits)
      qed
    qed
  qed
qed

lemma proc_rm_parent_link_loop_total:
  "links_valid s \<Longrightarrow> 1 \<le> i \<Longrightarrow> \<exists>s'. proc_rm_parent_link_loop pid i s = Inr s'"
proof (induction pid i s rule: proc_rm_parent_link_loop.induct)
  case (1 pid i s)
  show ?case
  proof (cases "i \<le> MAX_PROC")
    case False
    then show ?thesis by (simp add: proc_rm_parent_link_loop.simps [of pid i s])
  next
    case True
    from proc_rm_parent_link_step_total [OF "1.prems"(1,2) True]
    obtain s1 where st: "proc_rm_parent_link_step pid i s = Inr s1" ..
    from proc_rm_parent_link_step_links_valid [OF "1.prems"(1) st] have "links_valid s1" .
    from "1.IH" [OF True st this] "1.prems"(2)
    obtain s' where "proc_rm_parent_link_loop pid (i + 1) s1 = Inr s'" by auto
    with True st show ?thesis by (simp add: proc_rm_parent_link_loop.simps [of pid i s])
  qed
qed

text \<open>
  C7. For \<open>pid\<close> in \<open>PID_MIN..MAX_PROC\<close>: when every registered process and the parent
  it points at are live, \<open>proc_rm_parent_link\<close> returns; and whenever it returns,
  nothing but the PCBs has changed, and every PCB is as before except that the parent
  back-reference of each registered process that pointed at a process with
  identifier \<open>pid\<close> is \<open>NULL\<close>.
\<close>

theorem proc_rm_parent_link_clears_children:
  assumes "PID_MIN cfg \<le> pid" "pid \<le> MAX_PROC"
  shows "(links_valid s \<longrightarrow> (\<exists>s'. proc_rm_parent_link cfg pid s = Inr s')) \<and>
    (\<forall>s'. proc_rm_parent_link cfg pid s = Inr s' \<longrightarrow>
       s'\<lparr>procs := procs s\<rparr> = s \<and> length (procs s') = length (procs s) \<and>
       (\<forall>a. hlookup (procs s') a =
          (case hlookup (procs s) a of
             None \<Rightarrow> None
           | Some pr \<Rightarrow> Some (if registered s a \<and> parent_has_pid s pr pid
                             then pr\<lparr>parent_proc := None\<rparr> else pr))))"
proof (intro conjI allI impI)
  assume "links_valid s"
  from proc_rm_parent_link_loop_total [OF this, of 1 pid] assms
  show "\<exists>s'. proc_rm_parent_link cfg pid s = Inr s'"
    by (simp add: proc_rm_parent_link_def)
next
  fix s' assume "proc_rm_parent_link cfg pid s = Inr s'"
  with assms have run: "proc_rm_parent_link_loop pid 1 s = Inr s'"
    by (simp add: proc_rm_parent_link_def split: if_splits)
  note R = proc_rm_parent_link_loop_result [OF run]
  from R show "s'\<lparr>procs := procs s\<rparr> = s" "length (procs s') = length (procs s)" by simp_all
  fix a
  have "(\<exists>j. 1 \<le> j \<and> j \<le> MAX_PROC \<and> slots (processTable s) (nat j) = Some a) \<longleftrightarrow> registered s a"
  proof
    assume "\<exists>j. 1 \<le> j \<and> j \<le> MAX_PROC \<and> slots (processTable s) (nat j) = Some a"
    then obtain j where j: "1 \<le> j" "j \<le> MAX_PROC" "slots (processTable s) (nat j) = Some a" by blast
    then have "1 \<le> nat j \<and> nat j \<le> nat MAX_PROC" by linarith
    with j show "registered s a" unfolding registered_iff by blast
  next
    assume "registered s a"
    then obtain k where k: "1 \<le> k" "k \<le> nat MAX_PROC" "slots (processTable s) k = Some a"
      unfolding registered_iff by blast
    then have "1 \<le> int k \<and> int k \<le> MAX_PROC \<and> slots (processTable s) (nat (int k)) = Some a"
      by (simp add: MAX_PROC_def)
    then show "\<exists>j. 1 \<le> j \<and> j \<le> MAX_PROC \<and> slots (processTable s) (nat j) = Some a" by blast
  qed
  with R show "hlookup (procs s') a =
          (case hlookup (procs s) a of
             None \<Rightarrow> None
           | Some pr \<Rightarrow> Some (if registered s a \<and> parent_has_pid s pr pid
                             then pr\<lparr>parent_proc := None\<rparr> else pr))"
    by (auto split: option.splits)
qed

lemma links_valid_family_kernel: "links_valid family_kernel"
  unfolding links_valid_iff
  by (auto simp: family_kernel_def empty_kernel_def hlookup_def nth_Cons' fresh_proc_def
      split: option.splits)

theorem proc_rm_parent_link_clears_children_witness:
  "PID_MIN example_config \<le> 1 \<and> 1 \<le> MAX_PROC \<and> links_valid family_kernel \<and>
   (\<exists>s'. proc_rm_parent_link example_config 1 family_kernel = Inr s' \<and>
      hlookup (procs s') 0 = Some (fresh_proc\<lparr>p_pid := 1\<rparr>) \<and>
      hlookup (procs s') 1 = Some (fresh_proc\<lparr>parent_proc := None, p_pid := 2\<rparr>) \<and>
      hlookup (procs s') 2 = Some (fresh_proc\<lparr>parent_proc := Some 1, p_pid := 3\<rparr>))"
proof -
  have r: "PID_MIN example_config \<le> 1" "1 \<le> MAX_PROC"
    by (simp_all add: example_config_def MAX_PROC_def)
  note t = proc_rm_parent_link_clears_children [OF r, of family_kernel]
  from t links_valid_family_kernel obtain s' where
    run: "proc_rm_parent_link example_config 1 family_kernel = Inr s'" by blast
  with t have c: "hlookup (procs s') a =
          (case hlookup (procs family_kernel) a of
             None \<Rightarrow> None
           | Some pr \<Rightarrow> Some (if registered family_kernel a \<and> parent_has_pid family_kernel pr 1
                             then pr\<lparr>parent_proc := None\<rparr> else pr))" for a
    by blast
  have g: "registered family_kernel 1"
    unfolding registered_iff by (rule exI [of _ 2]) (simp add: family_kernel_def empty_kernel_def MAX_PROC_def)
  have h: "hlookup (procs family_kernel) 0 = Some (fresh_proc\<lparr>p_pid := 1\<rparr>)"
    "hlookup (procs family_kernel) 1 = Some (fresh_proc\<lparr>parent_proc := Some 0, p_pid := 2\<rparr>)"
    "hlookup (procs family_kernel) 2 = Some (fresh_proc\<lparr>parent_proc := Some 1, p_pid := 3\<rparr>)"
    by (simp_all add: family_kernel_def empty_kernel_def hlookup_def)
  have ph: "\<not> parent_has_pid family_kernel (fresh_proc\<lparr>p_pid := 1\<rparr>) 1"
    "parent_has_pid family_kernel (fresh_proc\<lparr>parent_proc := Some 0, p_pid := 2\<rparr>) 1"
    "\<not> parent_has_pid family_kernel (fresh_proc\<lparr>parent_proc := Some 1, p_pid := 3\<rparr>) 1"
    by (simp_all add: parent_has_pid_def family_kernel_def empty_kernel_def hlookup_def fresh_proc_def)
  have "hlookup (procs s') 0 = Some (fresh_proc\<lparr>p_pid := 1\<rparr>)"
    using c [of 0] h ph by simp
  moreover have "hlookup (procs s') 1 = Some (fresh_proc\<lparr>parent_proc := None, p_pid := 2\<rparr>)"
    using c [of 1] h ph g by simp
  moreover have "hlookup (procs s') 2 = Some (fresh_proc\<lparr>parent_proc := Some 1, p_pid := 3\<rparr>)"
    using c [of 2] h ph by simp
  ultimately show ?thesis using r links_valid_family_kernel run by blast
qed

section \<open>Counting the references to a handle\<close>


lemma slot_refs_Nil: "slot_refs ft h [] = 0"
  by (simp add: slot_refs_def)

lemma slot_refs_Cons:
  "slot_refs ft h (fd # fds) = (if ft fd = Some h then 1 else 0) + slot_refs ft h fds"
  by (simp add: slot_refs_def)

lemma slot_refs_append: "slot_refs ft h (xs @ ys) = slot_refs ft h xs + slot_refs ft h ys"
  by (simp add: slot_refs_def)

lemma slot_refs_cong:
  "(\<And>fd. fd \<in> set fds \<Longrightarrow> ft fd = ft' fd) \<Longrightarrow> slot_refs ft h fds = slot_refs ft' h fds"
  unfolding slot_refs_def by (rule arg_cong [where f = length], rule filter_cong) auto

lemma slot_refs_from:
  "fd < n \<Longrightarrow> slot_refs ft h [fd..<n] = (if ft fd = Some h then 1 else 0) + slot_refs ft h [Suc fd..<n]"
  by (simp add: upt_conv_Cons slot_refs_Cons)

lemma slot_refs_update:
  assumes "fd < n"
  shows "slot_refs (ft(fd := v)) h [0..<n] + (if ft fd = Some h then 1 else 0)
       = slot_refs ft h [0..<n] + (if v = Some h then 1 else 0)"
proof -
  have u: "[0..<n] = [0..<fd] @ fd # [Suc fd..<n]"
    using assms by (metis le0 upt_add_eq_append upt_conv_Cons le_add_diff_inverse less_imp_le_nat)
  have a: "slot_refs (ft(fd := v)) h [0..<fd] = slot_refs ft h [0..<fd]"
    by (rule slot_refs_cong) simp
  have b: "slot_refs (ft(fd := v)) h [Suc fd..<n] = slot_refs ft h [Suc fd..<n]"
    by (rule slot_refs_cong) simp
  show ?thesis
    by (simp add: u slot_refs_append slot_refs_Cons a b)
qed

lemma slot_refs_zero_iff: "slot_refs ft h fds = 0 \<longleftrightarrow> (\<forall>fd \<in> set fds. ft fd \<noteq> Some h)"
  by (auto simp: slot_refs_def filter_empty_conv)

lemma slot_refs_pos: "fd \<in> set fds \<Longrightarrow> ft fd = Some h \<Longrightarrow> 0 < slot_refs ft h fds"
  using slot_refs_zero_iff [of ft h fds] by auto

lemma total_refs_procs: "procs s' = procs s \<Longrightarrow> total_refs cfg s' h = total_refs cfg s h"
  by (simp add: total_refs_def)

lemma sum_list_map_update:
  fixes g :: "'a \<Rightarrow> nat"
  shows "a < length xs \<Longrightarrow> sum_list (map g (xs[a := y])) + g (xs ! a) = sum_list (map g xs) + g y"
proof (induction xs arbitrary: a)
  case Nil
  then show ?case by simp
next
  case (Cons x xs)
  then show ?case by (cases a) auto
qed

lemma total_refs_update:
  assumes "a < length (procs s)" "procs s' = (procs s)[a := c]"
  shows "total_refs cfg s' h + proc_refs cfg (procs s ! a) h = total_refs cfg s h + proc_refs cfg c h"
  using sum_list_map_update [OF assms(1), of "\<lambda>c. proc_refs cfg c h" c] assms(2)
  by (simp add: total_refs_def)


lemma refcount_inv_iff:
  "refcount_inv cfg s \<longleftrightarrow>
     (\<forall>h f. hlookup (openfiles s) h = Some f \<longrightarrow> countRef f = int (total_refs cfg s h))"
proof
  assume inv: "refcount_inv cfg s"
  show "\<forall>h f. hlookup (openfiles s) h = Some f \<longrightarrow> countRef f = int (total_refs cfg s h)"
  proof (intro allI impI)
    fix h f assume "hlookup (openfiles s) h = Some f"
    then have "(h, Some f) \<in> set (enumerate 0 (openfiles s))"
      by (auto simp: in_set_enumerate_eq hlookup_def split: if_splits)
    with inv show "countRef f = int (total_refs cfg s h)"
      by (auto simp: refcount_inv_def list_all_iff)
  qed
next
  assume "\<forall>h f. hlookup (openfiles s) h = Some f \<longrightarrow> countRef f = int (total_refs cfg s h)"
  then show "refcount_inv cfg s"
    by (auto simp: refcount_inv_def list_all_iff in_set_enumerate_eq hlookup_def split: option.splits)
qed

lemma table_empty_iff: "table_empty cfg pr \<longleftrightarrow> (\<forall>fd < OPEN_MAX cfg. fileTable pr fd = None)"
  by (auto simp: table_empty_def list_all_iff)

section \<open>Duplication of a file table: what a returning call has done\<close>


lemma lock_acquire_result:
  "lock_acquire l s = Inr s1 \<Longrightarrow>
   \<exists>a. l = Some a \<and> hlookup (locks s) a = Some False \<and> s1 = s\<lparr>locks := hupdate (locks s) a True\<rparr>"
  by (auto simp: lock_acquire_def split: option.splits if_splits)

lemma lock_release_result:
  "lock_release l s = Inr s1 \<Longrightarrow>
   \<exists>a. l = Some a \<and> hlookup (locks s) a = Some True \<and> s1 = s\<lparr>locks := hupdate (locks s) a False\<rparr>"
  by (auto simp: lock_release_def split: option.splits if_splits)

lemma lock_destroy_result:
  "lock_destroy l s = Inr s1 \<Longrightarrow>
   \<exists>a. l = Some a \<and> hlookup (locks s) a = Some False \<and> s1 = s\<lparr>locks := hfree (locks s) a\<rparr>"
  by (auto simp: lock_destroy_def split: option.splits if_splits)

lemma hupdate_same: "hlookup h a = Some v \<Longrightarrow> hupdate h a v = h"
  by (auto simp: hlookup_def hupdate_def split: if_splits intro: list_update_id [THEN trans, OF refl])
     (metis list_update_id)

lemma hupdate_hupdate: "hupdate (hupdate h a v) a w = hupdate h a w"
  by (simp add: hupdate_def)

text \<open>One iteration of the copy loop, for distinct source and destination.\<close>

lemma proc_file_table_copy_slot_result:
  assumes run: "proc_file_table_copy_slot psrc pdest fd s = Inr s1"
    and sr: "hlookup (procs s) psrc = Some sr" and dr: "hlookup (procs s) pdest = Some dr"
  shows "procs s1 = hupdate (procs s) pdest (dr\<lparr>fileTable := (fileTable dr)(fd := fileTable sr fd)\<rparr>) \<and>
     length (openfiles s1) = length (openfiles s) \<and>
     (\<forall>h. hlookup (openfiles s1) h =
        (case hlookup (openfiles s) h of
           None \<Rightarrow> None
         | Some f \<Rightarrow> Some (if fileTable sr fd = Some h then f\<lparr>countRef := countRef f + 1\<rparr> else f))) \<and>
     locks s1 = locks s \<and> ft_copy_lock s1 = ft_copy_lock s \<and> processTable s1 = processTable s"
proof (cases "fileTable sr fd")
  case None
  with run sr dr show ?thesis
    by (auto simp: proc_file_table_copy_slot_def andthen_def proc_read_def proc_write_def Let_def
        split: option.splits)
next
  case (Some h)
  with run sr dr obtain f v where f: "hlookup (openfiles s) h = Some f" "vn f = Some v"
    by (auto simp: proc_file_table_copy_slot_def andthen_def proc_read_def proc_write_def Let_def
        split: option.splits)
  with run sr dr Some show ?thesis
    by (auto simp: proc_file_table_copy_slot_def andthen_def proc_read_def proc_write_def Let_def
        openfileIncrRefCount_def emit_def hlookup_hupdate length_hupdate dest: hlookup_less
        split: option.splits)
qed


text \<open>The copy loop from descriptor \<open>fd\<close>, for distinct source and destination.\<close>

lemma proc_file_table_copy_loop_result:
  "proc_file_table_copy_loop cfg psrc pdest fd s = Inr s' \<Longrightarrow> psrc \<noteq> pdest \<Longrightarrow>
   hlookup (procs s) psrc = Some sr \<Longrightarrow> hlookup (procs s) pdest = Some dr \<Longrightarrow>
   procs s' = hupdate (procs s) pdest
       (dr\<lparr>fileTable := (\<lambda>i. if fd \<le> i \<and> i < OPEN_MAX cfg then fileTable sr i else fileTable dr i)\<rparr>) \<and>
   length (openfiles s') = length (openfiles s) \<and>
   (\<forall>h. hlookup (openfiles s') h =
      (case hlookup (openfiles s) h of
         None \<Rightarrow> None
       | Some f \<Rightarrow> Some (f\<lparr>countRef := countRef f + int (slot_refs (fileTable sr) h [fd..<OPEN_MAX cfg])\<rparr>))) \<and>
   locks s' = locks s \<and> ft_copy_lock s' = ft_copy_lock s \<and> processTable s' = processTable s"
proof (induction cfg psrc pdest fd s arbitrary: dr rule: proc_file_table_copy_loop.induct)
  case (1 cfg psrc pdest fd s)
  show ?case
  proof (cases "fd < OPEN_MAX cfg")
    case False
    with "1.prems"(1) have e: "s' = s"
      by (simp add: proc_file_table_copy_loop.simps [of cfg psrc pdest fd s])
    from False have "(\<lambda>i. if fd \<le> i \<and> i < OPEN_MAX cfg then fileTable sr i else fileTable dr i) = fileTable dr"
      by (auto simp: fun_eq_iff)
    with e False "1.prems"(4) show ?thesis
      by (auto simp: hupdate_same slot_refs_Nil split: option.splits)
  next
    case True
    with "1.prems"(1) obtain s1 where st: "proc_file_table_copy_slot psrc pdest fd s = Inr s1"
      and rest: "proc_file_table_copy_loop cfg psrc pdest (fd + 1) s1 = Inr s'"
      by (auto simp: proc_file_table_copy_loop.simps [of cfg psrc pdest fd s] split: sum.splits)
    let ?dr1 = "dr\<lparr>fileTable := (fileTable dr)(fd := fileTable sr fd)\<rparr>"
    note S = proc_file_table_copy_slot_result [OF st "1.prems"(3,4)]
    from S "1.prems"(2,3) have sr1: "hlookup (procs s1) psrc = Some sr"
      by (simp add: hlookup_hupdate)
    from S "1.prems"(4) have dr1: "hlookup (procs s1) pdest = Some ?dr1"
      by (simp add: hlookup_hupdate hlookup_less)
    note IH = "1.IH" [OF True st rest "1.prems"(2) sr1 dr1]
    have fe: "(\<lambda>i. if fd + 1 \<le> i \<and> i < OPEN_MAX cfg then fileTable sr i else fileTable ?dr1 i)
        = (\<lambda>i. if fd \<le> i \<and> i < OPEN_MAX cfg then fileTable sr i else fileTable dr i)"
      using True by (auto simp: fun_eq_iff)
    have p: "procs s' = hupdate (procs s) pdest
       (dr\<lparr>fileTable := (\<lambda>i. if fd \<le> i \<and> i < OPEN_MAX cfg then fileTable sr i else fileTable dr i)\<rparr>)"
      using IH S fe by (simp add: hupdate_hupdate)
    have o: "hlookup (openfiles s') h =
      (case hlookup (openfiles s) h of
         None \<Rightarrow> None
       | Some f \<Rightarrow> Some (f\<lparr>countRef := countRef f + int (slot_refs (fileTable sr) h [fd..<OPEN_MAX cfg])\<rparr>))" for h
      using IH S by (auto simp: slot_refs_from [OF True] split: option.splits)
    from p o IH S show ?thesis by simp
  qed
qed


lemma andthen_Inr: "andthen m f = Inr r \<Longrightarrow> \<exists>x. m = Inr x \<and> f x = Inr r"
  by (cases m) (simp_all add: andthen_def)

lemma proc_read_Inr: "proc_read a s = Inr pr \<longleftrightarrow> hlookup (procs s) a = Some pr"
  by (auto simp: proc_read_def split: option.splits)

text \<open>What a duplication that returns has done.\<close>

lemma proc_file_table_copy_result:
  assumes run: "proc_file_table_copy cfg psrc pdest s = Inr s'"
  shows "\<exists>sr dr. hlookup (procs s) psrc = Some sr \<and> hlookup (procs s) pdest = Some dr \<and> psrc \<noteq> pdest \<and>
     procs s' = hupdate (procs s) pdest
       (dr\<lparr>fileTable := (\<lambda>i. if i < OPEN_MAX cfg then fileTable sr i else fileTable dr i)\<rparr>) \<and>
     length (openfiles s') = length (openfiles s) \<and>
     (\<forall>h. hlookup (openfiles s') h =
        (case hlookup (openfiles s) h of
           None \<Rightarrow> None
         | Some f \<Rightarrow> Some (f\<lparr>countRef := countRef f + int (slot_refs (fileTable sr) h [0..<OPEN_MAX cfg])\<rparr>))) \<and>
     processTable s' = processTable s"
proof -
  from andthen_Inr [OF run [unfolded proc_file_table_copy_def]]
  obtain s1 where a1: "lock_acquire (ft_copy_lock s) s = Inr s1"
    and r1: "andthen (proc_read psrc s1) (\<lambda>sr.
     andthen (lock_acquire (ft_lock sr) s1) (\<lambda>s2.
     andthen (proc_read pdest s2) (\<lambda>dr.
     andthen (lock_acquire (ft_lock dr) s2) (\<lambda>s3.
     andthen (proc_file_table_copy_loop cfg psrc pdest 0 s3) (\<lambda>s4.
     andthen (proc_read pdest s4) (\<lambda>dr4.
     andthen (lock_release (ft_lock dr4) s4) (\<lambda>s5.
     andthen (proc_read psrc s5) (\<lambda>sr5.
     andthen (lock_release (ft_lock sr5) s5) (\<lambda>s6.
     lock_release (ft_copy_lock s6) s6))))))))) = Inr s'"
    by blast
  from andthen_Inr [OF r1] obtain sr where sr1: "proc_read psrc s1 = Inr sr"
    and r2: "andthen (lock_acquire (ft_lock sr) s1) (\<lambda>s2.
     andthen (proc_read pdest s2) (\<lambda>dr.
     andthen (lock_acquire (ft_lock dr) s2) (\<lambda>s3.
     andthen (proc_file_table_copy_loop cfg psrc pdest 0 s3) (\<lambda>s4.
     andthen (proc_read pdest s4) (\<lambda>dr4.
     andthen (lock_release (ft_lock dr4) s4) (\<lambda>s5.
     andthen (proc_read psrc s5) (\<lambda>sr5.
     andthen (lock_release (ft_lock sr5) s5) (\<lambda>s6.
     lock_release (ft_copy_lock s6) s6)))))))) = Inr s'"
    by blast
  from andthen_Inr [OF r2] obtain s2 where a2: "lock_acquire (ft_lock sr) s1 = Inr s2"
    and r3: "andthen (proc_read pdest s2) (\<lambda>dr.
     andthen (lock_acquire (ft_lock dr) s2) (\<lambda>s3.
     andthen (proc_file_table_copy_loop cfg psrc pdest 0 s3) (\<lambda>s4.
     andthen (proc_read pdest s4) (\<lambda>dr4.
     andthen (lock_release (ft_lock dr4) s4) (\<lambda>s5.
     andthen (proc_read psrc s5) (\<lambda>sr5.
     andthen (lock_release (ft_lock sr5) s5) (\<lambda>s6.
     lock_release (ft_copy_lock s6) s6))))))) = Inr s'"
    by blast
  from andthen_Inr [OF r3] obtain dr where dr2: "proc_read pdest s2 = Inr dr"
    and r4: "andthen (lock_acquire (ft_lock dr) s2) (\<lambda>s3.
     andthen (proc_file_table_copy_loop cfg psrc pdest 0 s3) (\<lambda>s4.
     andthen (proc_read pdest s4) (\<lambda>dr4.
     andthen (lock_release (ft_lock dr4) s4) (\<lambda>s5.
     andthen (proc_read psrc s5) (\<lambda>sr5.
     andthen (lock_release (ft_lock sr5) s5) (\<lambda>s6.
     lock_release (ft_copy_lock s6) s6)))))) = Inr s'"
    by blast
  from andthen_Inr [OF r4] obtain s3 where a3: "lock_acquire (ft_lock dr) s2 = Inr s3"
    and r5: "andthen (proc_file_table_copy_loop cfg psrc pdest 0 s3) (\<lambda>s4.
     andthen (proc_read pdest s4) (\<lambda>dr4.
     andthen (lock_release (ft_lock dr4) s4) (\<lambda>s5.
     andthen (proc_read psrc s5) (\<lambda>sr5.
     andthen (lock_release (ft_lock sr5) s5) (\<lambda>s6.
     lock_release (ft_copy_lock s6) s6))))) = Inr s'"
    by blast
  from andthen_Inr [OF r5] obtain s4 where lp: "proc_file_table_copy_loop cfg psrc pdest 0 s3 = Inr s4"
    and r6: "andthen (proc_read pdest s4) (\<lambda>dr4.
     andthen (lock_release (ft_lock dr4) s4) (\<lambda>s5.
     andthen (proc_read psrc s5) (\<lambda>sr5.
     andthen (lock_release (ft_lock sr5) s5) (\<lambda>s6.
     lock_release (ft_copy_lock s6) s6)))) = Inr s'"
    by blast
  from andthen_Inr [OF r6] obtain dr4 where "proc_read pdest s4 = Inr dr4"
    and r7: "andthen (lock_release (ft_lock dr4) s4) (\<lambda>s5.
     andthen (proc_read psrc s5) (\<lambda>sr5.
     andthen (lock_release (ft_lock sr5) s5) (\<lambda>s6.
     lock_release (ft_copy_lock s6) s6))) = Inr s'"
    by blast
  from andthen_Inr [OF r7] obtain s5 where b5: "lock_release (ft_lock dr4) s4 = Inr s5"
    and r8: "andthen (proc_read psrc s5) (\<lambda>sr5.
     andthen (lock_release (ft_lock sr5) s5) (\<lambda>s6.
     lock_release (ft_copy_lock s6) s6)) = Inr s'"
    by blast
  from andthen_Inr [OF r8] obtain sr5 where "proc_read psrc s5 = Inr sr5"
    and r9: "andthen (lock_release (ft_lock sr5) s5) (\<lambda>s6. lock_release (ft_copy_lock s6) s6) = Inr s'"
    by blast
  from andthen_Inr [OF r9] obtain s6 where b6: "lock_release (ft_lock sr5) s5 = Inr s6"
    and b7: "lock_release (ft_copy_lock s6) s6 = Inr s'"
    by blast
  from lock_acquire_result [OF a1] have e1: "procs s1 = procs s" "openfiles s1 = openfiles s"
      "processTable s1 = processTable s" by auto
  from lock_acquire_result [OF a2] obtain l where l: "ft_lock sr = Some l"
      "s2 = s1\<lparr>locks := hupdate (locks s1) l True\<rparr>" "hlookup (locks s1) l = Some False" by auto
  then have e2: "procs s2 = procs s" "openfiles s2 = openfiles s" "processTable s2 = processTable s"
    using e1 by simp_all
  from lock_acquire_result [OF a3] obtain l' where l': "ft_lock dr = Some l'"
      "s3 = s2\<lparr>locks := hupdate (locks s2) l' True\<rparr>" "hlookup (locks s2) l' = Some False" by auto
  then have e3: "procs s3 = procs s" "openfiles s3 = openfiles s" "processTable s3 = processTable s"
    using e2 by simp_all
  from sr1 e1 have sr: "hlookup (procs s) psrc = Some sr" by (simp add: proc_read_Inr)
  from dr2 e2 have dr: "hlookup (procs s) pdest = Some dr" by (simp add: proc_read_Inr)
  have ne: "psrc \<noteq> pdest"
  proof
    assume "psrc = pdest"
    with sr dr l l' have "hlookup (locks s2) l = Some False" by simp
    moreover from l(3) have "l < length (locks s1)" by (rule hlookup_less)
    ultimately show False using l(2) by (simp add: hlookup_hupdate)
  qed
  from sr dr e3 have "hlookup (procs s3) psrc = Some sr" "hlookup (procs s3) pdest = Some dr"
    by simp_all
  note L = proc_file_table_copy_loop_result [OF lp ne this]
  from lock_release_result [OF b5] have e5: "procs s5 = procs s4" "openfiles s5 = openfiles s4"
      "processTable s5 = processTable s4" by auto
  from lock_release_result [OF b6] have e6: "procs s6 = procs s5" "openfiles s6 = openfiles s5"
      "processTable s6 = processTable s5" by auto
  from lock_release_result [OF b7] have e7: "procs s' = procs s6" "openfiles s' = openfiles s6"
      "processTable s' = processTable s6" by auto
  from L e3 e5 e6 e7 sr dr ne show ?thesis by simp
qed


lemmas run_defs = andthen_def proc_read_def proc_write_def emit_def hlookup_def hupdate_def hfree_def
  lock_acquire_def lock_release_def lock_destroy_def Let_def

section \<open>Tearing down a file table: what a returning call has done\<close>


lemma closes_append: "closes h (tr @ tr') = closes h tr + closes h tr'"
  by (simp add: closes_def)

lemma closes_single:
  "closes h [e] = (case e of VFS_CLOSE h' v \<Rightarrow> if h' = h then 1 else 0 | _ \<Rightarrow> 0)"
  by (simp add: closes_def split: event.splits)

lemma drop_ref_result:
  assumes run: "drop_ref h f s = Inr s1" and f: "hlookup (openfiles s) h = Some f"
  shows "procs s1 = procs s \<and> openfiles s1 = hupdate (openfiles s) h (f\<lparr>countRef := countRef f - 1\<rparr>) \<and>
     trace s1 = trace s @ (if countRef f = 1 then (case vn f of None \<Rightarrow> [] | Some v \<Rightarrow> [VFS_CLOSE h v]) else []) \<and>
     processTable s1 = processTable s \<and> names s1 = names s \<and> sems s1 = sems s \<and> cvs s1 = cvs s \<and>
     kproc s1 = kproc s \<and> curproc s1 = curproc s \<and> ft_copy_lock s1 = ft_copy_lock s \<and>
     alloc_fail s1 = alloc_fail s"
proof -
  from andthen_Inr [OF run [unfolded drop_ref_def]] obtain sa where
    a: "lock_acquire (of_lock f) s = Inr sa"
    and r: "(let f' = f\<lparr>countRef := countRef f - 1\<rparr>;
           s2 = sa\<lparr>openfiles := hupdate (openfiles sa) h f'\<rparr>
       in if countRef f' = 0 then
            (let s3 = (case vn f' of None \<Rightarrow> s2 | Some v \<Rightarrow> emit (VFS_CLOSE h v) s2)
             in andthen (lock_release (of_lock f') s3) (lock_destroy (of_lock f')))
          else lock_release (of_lock f') s2) = Inr s1"
    by blast
  from lock_acquire_result [OF a] obtain l where l: "of_lock f = Some l"
    "sa = s\<lparr>locks := hupdate (locks s) l True\<rparr>" by auto
  show ?thesis
  proof (cases "countRef f = 1")
    case False
    with r have "lock_release (of_lock f) (sa\<lparr>openfiles := hupdate (openfiles sa) h (f\<lparr>countRef := countRef f - 1\<rparr>)\<rparr>) = Inr s1"
      by (simp add: Let_def)
    from lock_release_result [OF this] l False show ?thesis by auto
  next
    case True
    let ?s2 = "sa\<lparr>openfiles := hupdate (openfiles sa) h (f\<lparr>countRef := 0\<rparr>)\<rparr>"
    let ?s3 = "case vn f of None \<Rightarrow> ?s2 | Some v \<Rightarrow> emit (VFS_CLOSE h v) ?s2"
    from r True have "andthen (lock_release (of_lock f) ?s3) (lock_destroy (of_lock f)) = Inr s1"
      by (simp add: Let_def)
    from andthen_Inr [OF this] obtain sb where b: "lock_release (of_lock f) ?s3 = Inr sb"
      and d: "lock_destroy (of_lock f) sb = Inr s1" by blast
    from lock_release_result [OF b] obtain l1 where "sb = ?s3\<lparr>locks := hupdate (locks ?s3) l1 False\<rparr>"
      by auto
    moreover from lock_destroy_result [OF d] obtain l2 where "s1 = sb\<lparr>locks := hfree (locks sb) l2\<rparr>"
      by auto
    ultimately show ?thesis using l True
      by (cases "vn f") (simp_all add: emit_def)
  qed
qed

section \<open>Duplication of a file table: the call returns\<close>


lemma lock_acquire_ok:
  "hlookup (locks s) a = Some False \<Longrightarrow>
   lock_acquire (Some a) s = Inr (s\<lparr>locks := hupdate (locks s) a True\<rparr>)"
  by (simp add: lock_acquire_def)

lemma lock_release_ok:
  "hlookup (locks s) a = Some True \<Longrightarrow>
   lock_release (Some a) s = Inr (s\<lparr>locks := hupdate (locks s) a False\<rparr>)"
  by (simp add: lock_release_def)

lemma lock_destroy_ok:
  "hlookup (locks s) a = Some False \<Longrightarrow>
   lock_destroy (Some a) s = Inr (s\<lparr>locks := hfree (locks s) a\<rparr>)"
  by (simp add: lock_destroy_def)

text \<open>The copy loop returns when the source's handles are live and have a node.\<close>

lemma proc_file_table_copy_slot_total:
  assumes "hlookup (procs s) psrc = Some sr" "hlookup (procs s) pdest = Some dr"
    and "case fileTable sr fd of None \<Rightarrow> True
         | Some h \<Rightarrow> (case hlookup (openfiles s) h of None \<Rightarrow> False | Some f \<Rightarrow> vn f \<noteq> None)"
  shows "\<exists>s1. proc_file_table_copy_slot psrc pdest fd s = Inr s1"
  using assms
  by (auto simp: proc_file_table_copy_slot_def andthen_def proc_read_def proc_write_def Let_def
      openfileIncrRefCount_def emit_def split: option.splits)

lemma proc_file_table_copy_loop_total:
  "psrc \<noteq> pdest \<Longrightarrow> hlookup (procs s) psrc = Some sr \<Longrightarrow> hlookup (procs s) pdest = Some dr \<Longrightarrow>
   (\<forall>i < OPEN_MAX cfg. case fileTable sr i of None \<Rightarrow> True
         | Some h \<Rightarrow> (case hlookup (openfiles s) h of None \<Rightarrow> False | Some f \<Rightarrow> vn f \<noteq> None)) \<Longrightarrow>
   \<exists>s'. proc_file_table_copy_loop cfg psrc pdest fd s = Inr s'"
proof (induction cfg psrc pdest fd s arbitrary: dr rule: proc_file_table_copy_loop.induct)
  case (1 cfg psrc pdest fd s)
  show ?case
  proof (cases "fd < OPEN_MAX cfg")
    case False
    then show ?thesis by (simp add: proc_file_table_copy_loop.simps [of cfg psrc pdest fd s])
  next
    case True
    with "1.prems"(4) have "case fileTable sr fd of None \<Rightarrow> True
         | Some h \<Rightarrow> (case hlookup (openfiles s) h of None \<Rightarrow> False | Some f \<Rightarrow> vn f \<noteq> None)"
      by blast
    from proc_file_table_copy_slot_total [OF "1.prems"(2,3) this]
    obtain s1 where st: "proc_file_table_copy_slot psrc pdest fd s = Inr s1" ..
    note S = proc_file_table_copy_slot_result [OF st "1.prems"(2,3)]
    from S "1.prems"(1,2) have sr1: "hlookup (procs s1) psrc = Some sr"
      by (simp add: hlookup_hupdate)
    from S "1.prems"(3) have dr1: "hlookup (procs s1) pdest =
        Some (dr\<lparr>fileTable := (fileTable dr)(fd := fileTable sr fd)\<rparr>)"
      by (simp add: hlookup_hupdate hlookup_less)
    have h1: "\<forall>i < OPEN_MAX cfg. case fileTable sr i of None \<Rightarrow> True
         | Some h \<Rightarrow> (case hlookup (openfiles s1) h of None \<Rightarrow> False | Some f \<Rightarrow> vn f \<noteq> None)"
    proof (intro allI impI)
      fix i assume "i < OPEN_MAX cfg"
      with "1.prems"(4) have "case fileTable sr i of None \<Rightarrow> True
         | Some h \<Rightarrow> (case hlookup (openfiles s) h of None \<Rightarrow> False | Some f \<Rightarrow> vn f \<noteq> None)"
        by blast
      with S show "case fileTable sr i of None \<Rightarrow> True
         | Some h \<Rightarrow> (case hlookup (openfiles s1) h of None \<Rightarrow> False | Some f \<Rightarrow> vn f \<noteq> None)"
        by (auto split: option.splits)
    qed
    from "1.IH" [OF True st "1.prems"(1) sr1 dr1 h1]
    obtain s' where "proc_file_table_copy_loop cfg psrc pdest (fd + 1) s1 = Inr s'" ..
    with True st show ?thesis
      by (simp add: proc_file_table_copy_loop.simps [of cfg psrc pdest fd s])
  qed
qed


lemma copy_ready_iff:
  "copy_ready cfg s psrc pdest \<longleftrightarrow>
     (\<exists>g sr dr ls ld. ft_copy_lock s = Some g \<and> hlookup (procs s) psrc = Some sr \<and>
        hlookup (procs s) pdest = Some dr \<and> ft_lock sr = Some ls \<and> ft_lock dr = Some ld \<and>
        g \<noteq> ls \<and> g \<noteq> ld \<and> ls \<noteq> ld \<and>
        hlookup (locks s) g = Some False \<and> hlookup (locks s) ls = Some False \<and>
        hlookup (locks s) ld = Some False \<and>
        (\<forall>i < OPEN_MAX cfg. case fileTable sr i of None \<Rightarrow> True
           | Some h \<Rightarrow> (case hlookup (openfiles s) h of None \<Rightarrow> False | Some f \<Rightarrow> vn f \<noteq> None)))"
  by (auto simp: copy_ready_def list_all_iff split: option.splits)

text \<open>A duplication returns in every state that is ready for it.\<close>

lemma proc_file_table_copy_total:
  assumes "copy_ready cfg s psrc pdest"
  shows "\<exists>s'. proc_file_table_copy cfg psrc pdest s = Inr s'"
proof -
  from assms obtain g sr dr ls ld where
    g: "ft_copy_lock s = Some g" and sr: "hlookup (procs s) psrc = Some sr"
    and dr: "hlookup (procs s) pdest = Some dr" and ls: "ft_lock sr = Some ls"
    and ld: "ft_lock dr = Some ld" and ne: "g \<noteq> ls" "g \<noteq> ld" "ls \<noteq> ld"
    and fr: "hlookup (locks s) g = Some False" "hlookup (locks s) ls = Some False"
      "hlookup (locks s) ld = Some False"
    and hs: "\<forall>i < OPEN_MAX cfg. case fileTable sr i of None \<Rightarrow> True
           | Some h \<Rightarrow> (case hlookup (openfiles s) h of None \<Rightarrow> False | Some f \<Rightarrow> vn f \<noteq> None)"
    unfolding copy_ready_iff by blast
  have pne: "psrc \<noteq> pdest" using sr dr ls ld ne by auto
  have lg: "g < length (locks s)" "ls < length (locks s)" "ld < length (locks s)"
    using fr by (auto dest: hlookup_less)
  define s1 where "s1 = s\<lparr>locks := hupdate (locks s) g True\<rparr>"
  define s2 where "s2 = s1\<lparr>locks := hupdate (locks s1) ls True\<rparr>"
  define s3 where "s3 = s2\<lparr>locks := hupdate (locks s2) ld True\<rparr>"
  have a1: "lock_acquire (ft_copy_lock s) s = Inr s1"
    using fr(1) by (simp add: g lock_acquire_ok s1_def)
  have r1: "proc_read psrc s1 = Inr sr" by (simp add: proc_read_Inr s1_def sr)
  have a2: "lock_acquire (ft_lock sr) s1 = Inr s2"
    using fr(2) ne by (simp add: ls lock_acquire_ok s2_def s1_def hlookup_hupdate)
  have r2: "proc_read pdest s2 = Inr dr" by (simp add: proc_read_Inr s2_def s1_def dr)
  have a3: "lock_acquire (ft_lock dr) s2 = Inr s3"
    using fr(3) ne by (simp add: ld lock_acquire_ok s3_def s2_def s1_def hlookup_hupdate)
  have p3: "hlookup (procs s3) psrc = Some sr" "hlookup (procs s3) pdest = Some dr"
    by (simp_all add: s3_def s2_def s1_def sr dr)
  have h3: "\<forall>i < OPEN_MAX cfg. case fileTable sr i of None \<Rightarrow> True
           | Some h \<Rightarrow> (case hlookup (openfiles s3) h of None \<Rightarrow> False | Some f \<Rightarrow> vn f \<noteq> None)"
  proof -
    have e: "openfiles s3 = openfiles s" by (simp add: s3_def s2_def s1_def)
    show ?thesis unfolding e using hs .
  qed
  from proc_file_table_copy_loop_total [OF pne p3 h3, of 0]
  obtain s4 where lp: "proc_file_table_copy_loop cfg psrc pdest 0 s3 = Inr s4" ..
  note L = proc_file_table_copy_loop_result [OF lp pne p3]
  have l4: "locks s4 = hupdate (hupdate (hupdate (locks s) g True) ls True) ld True"
    using L by (simp add: s3_def s2_def s1_def)
  have c4: "ft_copy_lock s4 = Some g" using L by (simp add: s3_def s2_def s1_def g)
  have pl: "pdest < length (procs s3)" using p3(2) by (rule hlookup_less)
  let ?dr4 = "dr\<lparr>fileTable := (\<lambda>i. if 0 \<le> i \<and> i < OPEN_MAX cfg then fileTable sr i else fileTable dr i)\<rparr>"
  have d4: "hlookup (procs s4) pdest = Some ?dr4"
    using L pl by (simp add: hlookup_hupdate)
  have sr4: "hlookup (procs s4) psrc = Some sr"
    using L pne p3(1) by (simp add: hlookup_hupdate)
  define s5 where "s5 = s4\<lparr>locks := hupdate (locks s4) ld False\<rparr>"
  define s6 where "s6 = s5\<lparr>locks := hupdate (locks s5) ls False\<rparr>"
  define s7 where "s7 = s6\<lparr>locks := hupdate (locks s6) g False\<rparr>"
  have r4: "proc_read pdest s4 = Inr ?dr4" using d4 by (simp add: proc_read_Inr)
  have b5: "lock_release (ft_lock dr) s4 = Inr s5"
    using lg by (simp add: ld lock_release_ok s5_def l4 hlookup_hupdate length_hupdate)
  have r5: "proc_read psrc s5 = Inr sr" using sr4 by (simp add: proc_read_Inr s5_def)
  have b6: "lock_release (ft_lock sr) s5 = Inr s6"
    using lg ne by (simp add: ls lock_release_ok s6_def s5_def l4 hlookup_hupdate length_hupdate)
  have c6: "ft_copy_lock s6 = Some g" using c4 by (simp add: s6_def s5_def)
  have b7: "lock_release (ft_copy_lock s6) s6 = Inr s7"
    using lg ne by (simp add: c4 lock_release_ok s7_def s6_def s5_def l4 hlookup_hupdate length_hupdate)
  have "proc_file_table_copy cfg psrc pdest s = Inr s7"
    by (simp add: proc_file_table_copy_def a1 r1 a2 r2 a3 lp r4 b5 r5 b6 b7 andthen_def)
  then show ?thesis ..
qed


text \<open>
  C10. In a state that is ready for it, a duplication returns, and it has stored, at
  every descriptor below \<open>OPEN_MAX\<close>, the source's slot in the destination's,
  whatever the destination held there; the source's table is as before; and the count
  of every handle is its count before plus the number of source slots that reference
  it, so that no count has gone down.
\<close>

theorem proc_file_table_copy_overwrites:
  assumes "copy_ready cfg s psrc pdest" and "hlookup (procs s) psrc = Some sr"
  shows "\<exists>s' dr'. proc_file_table_copy cfg psrc pdest s = Inr s' \<and>
      hlookup (procs s') psrc = Some sr \<and> hlookup (procs s') pdest = Some dr' \<and>
      (\<forall>fd < OPEN_MAX cfg. fileTable dr' fd = fileTable sr fd) \<and>
      (\<forall>h f. hlookup (openfiles s) h = Some f \<longrightarrow>
         (\<exists>f'. hlookup (openfiles s') h = Some f' \<and> countRef f \<le> countRef f' \<and>
               countRef f' = countRef f + int (slot_refs (fileTable sr) h [0..<OPEN_MAX cfg])))"
proof -
  from proc_file_table_copy_total [OF assms(1)]
  obtain s' where run: "proc_file_table_copy cfg psrc pdest s = Inr s'" ..
  from proc_file_table_copy_result [OF run] assms(2) obtain dr where
    dr: "hlookup (procs s) pdest = Some dr" and ne: "psrc \<noteq> pdest"
    and p: "procs s' = hupdate (procs s) pdest
       (dr\<lparr>fileTable := (\<lambda>i. if i < OPEN_MAX cfg then fileTable sr i else fileTable dr i)\<rparr>)"
    and o: "\<forall>h. hlookup (openfiles s') h =
        (case hlookup (openfiles s) h of
           None \<Rightarrow> None
         | Some f \<Rightarrow> Some (f\<lparr>countRef := countRef f + int (slot_refs (fileTable sr) h [0..<OPEN_MAX cfg])\<rparr>))"
    by auto
  from dr have "pdest < length (procs s)" by (rule hlookup_less)
  with p have d': "hlookup (procs s') pdest =
      Some (dr\<lparr>fileTable := (\<lambda>i. if i < OPEN_MAX cfg then fileTable sr i else fileTable dr i)\<rparr>)"
    by (simp add: hlookup_hupdate)
  from p ne assms(2) have s': "hlookup (procs s') psrc = Some sr"
    by (simp add: hlookup_hupdate)
  from o have c: "\<forall>h f. hlookup (openfiles s) h = Some f \<longrightarrow>
            (\<exists>f'. hlookup (openfiles s') h = Some f' \<and> countRef f \<le> countRef f' \<and>
                  countRef f' = countRef f + int (slot_refs (fileTable sr) h [0..<OPEN_MAX cfg]))"
    by simp
  have "\<forall>fd < OPEN_MAX cfg.
      fileTable (dr\<lparr>fileTable := (\<lambda>i. if i < OPEN_MAX cfg then fileTable sr i else fileTable dr i)\<rparr>) fd
      = fileTable sr fd"
    by simp
  with run s' d' c show ?thesis by blast
qed

lemma copy_ready_two_table_kernel: "copy_ready example_config two_table_kernel 0 1"
  by (simp add: copy_ready_def two_table_kernel_def empty_kernel_def example_config_def hlookup_def
      fresh_proc_def list_all_iff)

theorem proc_file_table_copy_overwrites_witness:
  "copy_ready example_config two_table_kernel 0 1 \<and>
   (\<exists>s' dr' f'. proc_file_table_copy example_config 0 1 two_table_kernel = Inr s' \<and>
      hlookup (procs s') 1 = Some dr' \<and> fileTable dr' 0 = Some 0 \<and> fileTable dr' 1 = None \<and>
      hlookup (openfiles s') 0 = Some f' \<and> countRef f' = 2) \<and>
   (\<exists>s' f'. proc_file_table_copy example_config 0 1 two_table_kernel = Inr s' \<and>
      hlookup (openfiles s') 1 = Some f' \<and> countRef f' = 1)"
proof -
  let ?sr = "fresh_proc\<lparr>p_name := Some 0, ft_lock := Some 1, p_pid := 1, p_sem := Some 0,
                         fileTable := (\<lambda>fd. None)(0 := Some 0)\<rparr>"
  have sr: "hlookup (procs two_table_kernel) 0 = Some ?sr"
    by (simp add: two_table_kernel_def empty_kernel_def hlookup_def)
  have f0: "hlookup (openfiles two_table_kernel) 0 = Some \<lparr>vn = Some 7, countRef = 1, of_lock = Some 3\<rparr>"
    and f1: "hlookup (openfiles two_table_kernel) 1 = Some \<lparr>vn = Some 8, countRef = 1, of_lock = Some 4\<rparr>"
    by (simp_all add: two_table_kernel_def empty_kernel_def hlookup_def)
  from proc_file_table_copy_overwrites [OF copy_ready_two_table_kernel sr]
  obtain s' dr' where run: "proc_file_table_copy example_config 0 1 two_table_kernel = Inr s'"
    and d: "hlookup (procs s') 1 = Some dr'"
      "\<forall>fd < OPEN_MAX example_config. fileTable dr' fd = fileTable ?sr fd"
    and c: "\<forall>h f. hlookup (openfiles two_table_kernel) h = Some f \<longrightarrow>
         (\<exists>f'. hlookup (openfiles s') h = Some f' \<and> countRef f \<le> countRef f' \<and>
               countRef f' = countRef f + int (slot_refs (fileTable ?sr) h [0..<OPEN_MAX example_config]))"
    by blast
  from d(2) have d2: "fileTable dr' 0 = Some 0" "fileTable dr' 1 = None"
    by (simp_all add: example_config_def)
  from c f0 obtain g0 where g0: "hlookup (openfiles s') 0 = Some g0"
      "countRef g0 = 1 + int (slot_refs (fileTable ?sr) 0 [0..<OPEN_MAX example_config])"
    by fastforce
  from c f1 obtain g1 where g1: "hlookup (openfiles s') 1 = Some g1"
      "countRef g1 = 1 + int (slot_refs (fileTable ?sr) 1 [0..<OPEN_MAX example_config])"
    by fastforce
  have "slot_refs (fileTable ?sr) 0 [0..<OPEN_MAX example_config] = 1"
    "slot_refs (fileTable ?sr) 1 [0..<OPEN_MAX example_config] = 0"
    by (simp_all add: slot_refs_def example_config_def upt_rec [of 0] upt_rec [of 1])
  with g0 g1 have "countRef g0 = 2" "countRef g1 = 1" by simp_all
  with run d(1) d2 g0(1) g1(1) copy_ready_two_table_kernel show ?thesis by blast
qed


lemma proc_write_result:
  "proc_write a g s = Inr s1 \<Longrightarrow>
   \<exists>pr. hlookup (procs s) a = Some pr \<and> s1 = s\<lparr>procs := hupdate (procs s) a (g pr)\<rparr>"
  by (auto simp: proc_write_def split: option.splits)

lemma closes_Nil: "closes k [] = 0"
  by (simp add: closes_def)

lemma closes_VFS_CLOSE: "closes k [VFS_CLOSE h v] = (if k = h then 1 else 0)"
  by (simp add: closes_def)

lemma closes_vn:
  "closes k (case x of None \<Rightarrow> [] | Some v \<Rightarrow> [VFS_CLOSE h v]) = (if k = h \<and> x \<noteq> None then 1 else 0)"
  by (cases x) (simp_all add: closes_Nil closes_VFS_CLOSE)

text \<open>One iteration of the file-table loop of \<open>proc_destroy\<close>.\<close>

lemma proc_destroy_slot_result:
  assumes run: "proc_destroy_slot a fd s = Inr s1" and pr: "hlookup (procs s) a = Some pr"
  shows "procs s1 = hupdate (procs s) a (pr\<lparr>fileTable := (fileTable pr)(fd := None)\<rparr>) \<and>
     length (openfiles s1) = length (openfiles s) \<and>
     (\<forall>h. hlookup (openfiles s1) h =
        (case hlookup (openfiles s) h of
           None \<Rightarrow> None
         | Some f \<Rightarrow> Some (if fileTable pr fd = Some h then f\<lparr>countRef := countRef f - 1\<rparr> else f))) \<and>
     (\<forall>h. closes h (trace s1) = closes h (trace s) +
        (case hlookup (openfiles s) h of
           None \<Rightarrow> 0
         | Some f \<Rightarrow> if fileTable pr fd = Some h \<and> countRef f = 1 \<and> vn f \<noteq> None then 1 else 0)) \<and>
     processTable s1 = processTable s \<and> names s1 = names s \<and> sems s1 = sems s \<and> cvs s1 = cvs s \<and>
     kproc s1 = kproc s \<and> curproc s1 = curproc s"
proof -
  from run pr have r: "andthen
       (case fileTable pr fd of
          None \<Rightarrow> Inr s
        | Some h \<Rightarrow>
            (case hlookup (openfiles s) h of
               None \<Rightarrow> Inl Fault
             | Some f \<Rightarrow> drop_ref h f s))
       (proc_write a (\<lambda>pr. pr\<lparr>fileTable := (fileTable pr)(fd := None)\<rparr>)) = Inr s1"
    by (simp add: proc_destroy_slot_def proc_read_def andthen_def)
  from andthen_Inr [OF r] obtain sm where
    m: "(case fileTable pr fd of
          None \<Rightarrow> Inr s
        | Some h \<Rightarrow>
            (case hlookup (openfiles s) h of
               None \<Rightarrow> Inl Fault
             | Some f \<Rightarrow> drop_ref h f s)) = Inr sm"
    and w: "proc_write a (\<lambda>pr. pr\<lparr>fileTable := (fileTable pr)(fd := None)\<rparr>) sm = Inr s1"
    by blast
  show ?thesis
  proof (cases "fileTable pr fd")
    case None
    with m have "sm = s" by simp
    with proc_write_result [OF w] pr None show ?thesis
      by (auto split: option.splits)
  next
    case (Some h)
    with m obtain f where f: "hlookup (openfiles s) h = Some f" and d: "drop_ref h f s = Inr sm"
      by (auto split: option.splits)
    note D = drop_ref_result [OF d f]
    from D pr have "hlookup (procs sm) a = Some pr" by simp
    with proc_write_result [OF w]
    have s1: "s1 = sm\<lparr>procs := hupdate (procs sm) a (pr\<lparr>fileTable := (fileTable pr)(fd := None)\<rparr>)\<rparr>"
      by auto
    have lt: "h < length (openfiles s)" using f by (rule hlookup_less)
    have o: "hlookup (openfiles s1) k =
        (case hlookup (openfiles s) k of
           None \<Rightarrow> None
         | Some g \<Rightarrow> Some (if fileTable pr fd = Some k then g\<lparr>countRef := countRef g - 1\<rparr> else g))" for k
      using s1 D f lt Some by (auto simp: hlookup_hupdate split: option.splits)
    have c: "closes k (trace s1) = closes k (trace s) +
        (case hlookup (openfiles s) k of
           None \<Rightarrow> 0
         | Some g \<Rightarrow> if fileTable pr fd = Some k \<and> countRef g = 1 \<and> vn g \<noteq> None then 1 else 0)" for k
    proof (cases "countRef f = 1")
      case True
      with s1 D have "trace s1 = trace s @ (case vn f of None \<Rightarrow> [] | Some v \<Rightarrow> [VFS_CLOSE h v])"
        by simp
      then have "closes k (trace s1) = closes k (trace s) + (if k = h \<and> vn f \<noteq> None then 1 else 0)"
        by (simp add: closes_append closes_vn)
      with f Some True show ?thesis
        by (auto split: option.splits)
    next
      case False
      with s1 D have "trace s1 = trace s" by simp
      with f Some False show ?thesis
        by (auto split: option.splits)
    qed
    from s1 D o c show ?thesis by (simp add: length_hupdate)
  qed
qed


lemma hupdate_True_False:
  "hlookup h a = Some False \<Longrightarrow> hupdate (hupdate h a True) a False = h"
  by (simp add: hupdate_hupdate hupdate_same)

lemma hfree_hupdate: "hfree (hupdate h a v) a = hfree h a"
  by (simp add: hfree_def hupdate_def)

text \<open>Dropping a reference returns when the handle's lock is live and free.\<close>

lemma drop_ref_ok:
  assumes lk: "of_lock f = Some lk" and fr: "hlookup (locks s) lk = Some False"
  shows "\<exists>s1. drop_ref h f s = Inr s1 \<and>
     locks s1 = (if countRef f = 1 then hfree (locks s) lk else locks s)"
proof -
  have lt: "lk < length (locks s)" using fr by (rule hlookup_less)
  let ?sa = "s\<lparr>locks := hupdate (locks s) lk True\<rparr>"
  have a: "lock_acquire (of_lock f) s = Inr ?sa"
    using fr by (simp add: lk lock_acquire_ok)
  show ?thesis
  proof (cases "countRef f = 1")
    case False
    let ?s2 = "?sa\<lparr>openfiles := hupdate (openfiles ?sa) h (f\<lparr>countRef := countRef f - 1\<rparr>)\<rparr>"
    have "hlookup (locks ?s2) lk = Some True" using lt by (simp add: hlookup_hupdate)
    from lock_release_ok [OF this]
    have "lock_release (of_lock f) ?s2 = Inr (?s2\<lparr>locks := hupdate (locks ?s2) lk False\<rparr>)"
      by (simp add: lk)
    with a False fr show ?thesis
      by (simp add: drop_ref_def andthen_def Let_def hupdate_True_False)
  next
    case True
    let ?s2 = "?sa\<lparr>openfiles := hupdate (openfiles ?sa) h (f\<lparr>countRef := 0\<rparr>)\<rparr>"
    let ?s3 = "case vn f of None \<Rightarrow> ?s2 | Some v \<Rightarrow> emit (VFS_CLOSE h v) ?s2"
    have l3: "locks ?s3 = hupdate (locks s) lk True"
      by (cases "vn f") (simp_all add: emit_def)
    then have "hlookup (locks ?s3) lk = Some True" using lt by (simp add: hlookup_hupdate)
    from lock_release_ok [OF this]
    have b: "lock_release (of_lock f) ?s3 = Inr (?s3\<lparr>locks := hupdate (locks ?s3) lk False\<rparr>)"
      by (simp add: lk)
    let ?s4 = "?s3\<lparr>locks := hupdate (locks ?s3) lk False\<rparr>"
    have "hlookup (locks ?s4) lk = Some False" using lt l3 by (simp add: hlookup_hupdate length_hupdate)
    from lock_destroy_ok [OF this]
    have d: "lock_destroy (of_lock f) ?s4 = Inr (?s4\<lparr>locks := hfree (locks ?s4) lk\<rparr>)"
      by (simp add: lk)
    have "locks (?s4\<lparr>locks := hfree (locks ?s4) lk\<rparr>) = hfree (locks s) lk"
      using l3 by (simp add: hfree_hupdate)
    with a b d True show ?thesis
      by (simp add: drop_ref_def andthen_def Let_def)
  qed
qed

section \<open>Tearing down a file table: the loop returns\<close>


lemma files_ready_iff:
  "files_ready cfg s pr fd \<longleftrightarrow>
     (\<forall>i. fd \<le> i \<and> i < OPEN_MAX cfg \<longrightarrow> slot_ready s pr [fd..<OPEN_MAX cfg] i)"
  by (auto simp: files_ready_def list_all_iff)

lemma slot_ready_None: "fileTable pr i = None \<Longrightarrow> slot_ready s pr fds i"
  by (simp add: slot_ready_def)

lemma slot_ready_Some:
  "fileTable pr i = Some h \<Longrightarrow>
   slot_ready s pr fds i \<longleftrightarrow>
     (\<exists>f lk. hlookup (openfiles s) h = Some f \<and> of_lock f = Some lk \<and>
        hlookup (locks s) lk = Some False \<and> ft_lock pr \<noteq> Some lk \<and>
        int (slot_refs (fileTable pr) h fds) \<le> countRef f \<and>
        (\<forall>j \<in> set fds. \<forall>h'. fileTable pr j = Some h' \<longrightarrow> h' = h \<or> handle_lock s h' \<noteq> Some lk))"
  by (auto simp: slot_ready_def list_all_iff split: option.splits)

lemma handle_lock_hupdate:
  "hlookup hs h = Some f \<Longrightarrow>
   handle_lock (s\<lparr>openfiles := hupdate hs h (f\<lparr>countRef := c\<rparr>)\<rparr>) k
     = handle_lock (s\<lparr>openfiles := hs\<rparr>) k"
  by (auto simp: handle_lock_def hlookup_hupdate dest: hlookup_less split: option.splits)


text \<open>
  Readiness of the descriptors from \<open>fd\<close> carries over to those after \<open>fd\<close> once
  slot \<open>fd\<close> has been torn down.
\<close>

lemma files_ready_step:
  assumes rdy: "files_ready cfg s pr fd" and fd: "fd < OPEN_MAX cfg"
    and ft: "fileTable pr1 = (fileTable pr)(fd := None)" and fl: "ft_lock pr1 = ft_lock pr"
    and hl: "\<And>k. handle_lock s1 k = handle_lock s k"
    and other: "\<And>k f. hlookup (openfiles s) k = Some f \<Longrightarrow> fileTable pr fd \<noteq> Some k \<Longrightarrow>
        hlookup (openfiles s1) k = Some f"
    and same: "\<And>h f. fileTable pr fd = Some h \<Longrightarrow> hlookup (openfiles s) h = Some f \<Longrightarrow>
        hlookup (openfiles s1) h = Some (f\<lparr>countRef := countRef f - 1\<rparr>)"
    and lks: "\<And>k. hlookup (locks s) k = Some False \<Longrightarrow>
        (\<And>h f. fileTable pr fd = Some h \<Longrightarrow> hlookup (openfiles s) h = Some f \<Longrightarrow>
            countRef f = 1 \<Longrightarrow> of_lock f \<noteq> Some k) \<Longrightarrow>
        hlookup (locks s1) k = Some False"
  shows "files_ready cfg s1 pr1 (Suc fd)"
  unfolding files_ready_iff
proof (intro allI impI)
  fix i assume i: "Suc fd \<le> i \<and> i < OPEN_MAX cfg"
  let ?old = "[fd..<OPEN_MAX cfg]" and ?new = "[Suc fd..<OPEN_MAX cfg]"
  from rdy i have old: "slot_ready s pr ?old i" by (simp add: files_ready_iff)
  from i ft have fi: "fileTable pr1 i = fileTable pr i" by simp
  show "slot_ready s1 pr1 ?new i"
  proof (cases "fileTable pr i")
    case None
    with fi show ?thesis by (simp add: slot_ready_None)
  next
    case (Some h2)
    with old obtain f2 lk2 where f2: "hlookup (openfiles s) h2 = Some f2" and lk2: "of_lock f2 = Some lk2"
      and free: "hlookup (locks s) lk2 = Some False" and nft: "ft_lock pr \<noteq> Some lk2"
      and cnt: "int (slot_refs (fileTable pr) h2 ?old) \<le> countRef f2"
      and dist: "\<forall>j \<in> set ?old. \<forall>h'. fileTable pr j = Some h' \<longrightarrow> h' = h2 \<or> handle_lock s h' \<noteq> Some lk2"
      by (auto simp: slot_ready_Some)
    have c1: "slot_refs (fileTable pr1) h2 ?new = slot_refs (fileTable pr) h2 ?new"
      by (rule slot_refs_cong) (simp add: ft)
    have c2: "slot_refs (fileTable pr) h2 ?old =
        (if fileTable pr fd = Some h2 then 1 else 0) + slot_refs (fileTable pr) h2 ?new"
      by (rule slot_refs_from [OF fd])
    have c3: "0 < slot_refs (fileTable pr) h2 ?new"
      by (rule slot_refs_pos [of i]) (use i Some in simp_all)
    have d': "\<forall>j \<in> set ?new. \<forall>h'. fileTable pr1 j = Some h' \<longrightarrow> h' = h2 \<or> handle_lock s1 h' \<noteq> Some lk2"
    proof (intro ballI allI impI)
      fix j h' assume j: "j \<in> set ?new" and "fileTable pr1 j = Some h'"
      with ft have "fileTable pr j = Some h'" by (simp split: if_splits)
      moreover from j have "j \<in> set ?old" by simp
      ultimately have "h' = h2 \<or> handle_lock s h' \<noteq> Some lk2"
        using dist by blast
      then show "h' = h2 \<or> handle_lock s1 h' \<noteq> Some lk2"
        by (simp add: hl)
    qed
    show ?thesis
    proof (cases "fileTable pr fd = Some h2")
      case True
      from same [OF True f2] have f': "hlookup (openfiles s1) h2 = Some (f2\<lparr>countRef := countRef f2 - 1\<rparr>)" .
      from cnt c2 c3 True have big: "2 \<le> countRef f2" by simp
      have "hlookup (locks s1) lk2 = Some False"
      proof (rule lks [OF free])
        fix h f assume "fileTable pr fd = Some h" "hlookup (openfiles s) h = Some f" "countRef f = 1"
        with True f2 big show "of_lock f \<noteq> Some lk2" by simp
      qed
      moreover from cnt c2 c1 True
      have "int (slot_refs (fileTable pr1) h2 ?new) \<le> countRef (f2\<lparr>countRef := countRef f2 - 1\<rparr>)"
        by simp
      ultimately show ?thesis
        using fi Some f' lk2 nft fl d' by (simp add: slot_ready_Some)
    next
      case False
      from other [OF f2 False] have f': "hlookup (openfiles s1) h2 = Some f2" .
      have "hlookup (locks s1) lk2 = Some False"
      proof (rule lks [OF free])
        fix h f assume a: "fileTable pr fd = Some h" "hlookup (openfiles s) h = Some f" "countRef f = 1"
        with False have "h \<noteq> h2" by auto
        moreover from fd have "fd \<in> set ?old" by simp
        ultimately have "handle_lock s h \<noteq> Some lk2" using dist a(1) by blast
        with a(2) show "of_lock f \<noteq> Some lk2" by (simp add: handle_lock_def)
      qed
      moreover from cnt c2 c1 have "int (slot_refs (fileTable pr1) h2 ?new) \<le> countRef f2"
        by simp
      ultimately show ?thesis
        using fi Some f' lk2 nft fl d' by (simp add: slot_ready_Some)
    qed
  qed
qed


lemma proc_write_ok:
  "hlookup (procs s) a = Some pr \<Longrightarrow>
   proc_write a g s = Inr (s\<lparr>procs := hupdate (procs s) a (g pr)\<rparr>)"
  by (simp add: proc_write_def)

text \<open>
  One iteration of the file-table loop returns when the descriptors from \<open>fd\<close> are
  ready, and leaves those after \<open>fd\<close> ready and the table's own lock live and free.
\<close>

lemma proc_destroy_slot_ok:
  assumes pr: "hlookup (procs s) a = Some pr" and fd: "fd < OPEN_MAX cfg"
    and rdy: "files_ready cfg s pr fd"
    and l: "ft_lock pr = Some l" and lf: "hlookup (locks s) l = Some False"
  shows "\<exists>s1. proc_destroy_slot a fd s = Inr s1 \<and>
     files_ready cfg s1 (pr\<lparr>fileTable := (fileTable pr)(fd := None)\<rparr>) (Suc fd) \<and>
     hlookup (locks s1) l = Some False"
proof (cases "fileTable pr fd")
  case None
  let ?s1 = "s\<lparr>procs := hupdate (procs s) a (pr\<lparr>fileTable := (fileTable pr)(fd := None)\<rparr>)\<rparr>"
  have run: "proc_destroy_slot a fd s = Inr ?s1"
    using pr None by (simp add: proc_destroy_slot_def proc_read_def andthen_def proc_write_ok)
  have "files_ready cfg ?s1 (pr\<lparr>fileTable := (fileTable pr)(fd := None)\<rparr>) (Suc fd)"
    by (rule files_ready_step [OF rdy fd]) (simp_all add: handle_lock_def None)
  with run lf show ?thesis by simp
next
  case (Some h)
  from rdy fd have "slot_ready s pr [fd..<OPEN_MAX cfg] fd" by (simp add: files_ready_iff)
  with Some obtain f lk where f: "hlookup (openfiles s) h = Some f" and lk: "of_lock f = Some lk"
    and free: "hlookup (locks s) lk = Some False" and nft: "ft_lock pr \<noteq> Some lk"
    by (auto simp: slot_ready_Some)
  from drop_ref_ok [OF lk free, of h] obtain sm where d: "drop_ref h f s = Inr sm"
    and lm: "locks sm = (if countRef f = 1 then hfree (locks s) lk else locks s)" by blast
  note D = drop_ref_result [OF d f]
  from D pr have pm: "hlookup (procs sm) a = Some pr" by simp
  let ?s1 = "sm\<lparr>procs := hupdate (procs sm) a (pr\<lparr>fileTable := (fileTable pr)(fd := None)\<rparr>)\<rparr>"
  have run: "proc_destroy_slot a fd s = Inr ?s1"
    using pr Some f d pm by (simp add: proc_destroy_slot_def proc_read_def andthen_def proc_write_ok)
  have o1: "openfiles ?s1 = hupdate (openfiles s) h (f\<lparr>countRef := countRef f - 1\<rparr>)"
    using D by simp
  have hlt: "h < length (openfiles s)" using f by (rule hlookup_less)
  have keep: "hlookup (locks ?s1) k = Some False"
    if "hlookup (locks s) k = Some False" and "countRef f = 1 \<Longrightarrow> k \<noteq> lk" for k
    using that lm by (auto simp: hlookup_hfree)
  have "files_ready cfg ?s1 (pr\<lparr>fileTable := (fileTable pr)(fd := None)\<rparr>) (Suc fd)"
  proof (rule files_ready_step [OF rdy fd])
    show "handle_lock ?s1 k = handle_lock s k" for k
      using f hlt by (auto simp: handle_lock_def o1 hlookup_hupdate split: option.splits)
    show "hlookup (openfiles ?s1) k = Some g"
      if "hlookup (openfiles s) k = Some g" "fileTable pr fd \<noteq> Some k" for k g
      using that Some by (simp add: o1 hlookup_hupdate)
    show "hlookup (openfiles ?s1) h' = Some (g\<lparr>countRef := countRef g - 1\<rparr>)"
      if "fileTable pr fd = Some h'" "hlookup (openfiles s) h' = Some g" for h' g
      using that Some f hlt by (simp add: o1 hlookup_hupdate)
    show "hlookup (locks ?s1) k = Some False"
      if "hlookup (locks s) k = Some False"
        and "\<And>h f. fileTable pr fd = Some h \<Longrightarrow> hlookup (openfiles s) h = Some f \<Longrightarrow>
            countRef f = 1 \<Longrightarrow> of_lock f \<noteq> Some k" for k
    proof (rule keep [OF that(1)])
      assume "countRef f = 1"
      from that(2) [OF Some f this] lk show "k \<noteq> lk" by auto
    qed
  qed simp_all
  moreover have "hlookup (locks ?s1) l = Some False"
    by (rule keep [OF lf]) (use nft l in auto)
  ultimately show ?thesis using run by blast
qed


text \<open>The file-table loop returns from descriptor \<open>fd\<close> when the descriptors from \<open>fd\<close> are ready.\<close>

lemma proc_destroy_files_ok:
  "hlookup (procs s) a = Some pr \<Longrightarrow> files_ready cfg s pr fd \<Longrightarrow>
   ft_lock pr = Some l \<Longrightarrow> hlookup (locks s) l = Some False \<Longrightarrow>
   \<exists>s'. proc_destroy_files cfg a fd s = Inr s' \<and> hlookup (locks s') l = Some False"
proof (induction cfg a fd s arbitrary: pr rule: proc_destroy_files.induct)
  case (1 cfg a fd s)
  show ?case
  proof (cases "fd < OPEN_MAX cfg")
    case False
    with "1.prems"(4) show ?thesis by (simp add: proc_destroy_files.simps [of cfg a fd s])
  next
    case True
    let ?pr1 = "pr\<lparr>fileTable := (fileTable pr)(fd := None)\<rparr>"
    from proc_destroy_slot_ok [OF "1.prems"(1) True "1.prems"(2,3,4)]
    obtain s1 where st: "proc_destroy_slot a fd s = Inr s1"
      and r1: "files_ready cfg s1 ?pr1 (Suc fd)" and l1: "hlookup (locks s1) l = Some False"
      by blast
    from proc_destroy_slot_result [OF st "1.prems"(1)] "1.prems"(1)
    have p1: "hlookup (procs s1) a = Some ?pr1"
      by (simp add: hlookup_hupdate hlookup_less)
    from "1.IH" [OF True st p1] r1 "1.prems"(3) l1
    obtain s' where "proc_destroy_files cfg a (fd + 1) s1 = Inr s'" "hlookup (locks s') l = Some False"
      by auto
    with True st show ?thesis by (simp add: proc_destroy_files.simps [of cfg a fd s])
  qed
qed

text \<open>What the file-table loop has done when it returns.\<close>

lemma proc_destroy_files_result:
  "proc_destroy_files cfg a fd s = Inr s' \<Longrightarrow> hlookup (procs s) a = Some pr \<Longrightarrow>
   procs s' = hupdate (procs s) a
       (pr\<lparr>fileTable := (\<lambda>i. if fd \<le> i \<and> i < OPEN_MAX cfg then None else fileTable pr i)\<rparr>) \<and>
   length (openfiles s') = length (openfiles s) \<and>
   (\<forall>h. hlookup (openfiles s') h =
      (case hlookup (openfiles s) h of
         None \<Rightarrow> None
       | Some f \<Rightarrow> Some (f\<lparr>countRef := countRef f - int (slot_refs (fileTable pr) h [fd..<OPEN_MAX cfg])\<rparr>))) \<and>
   (\<forall>h f. hlookup (openfiles s) h = Some f \<longrightarrow>
      int (slot_refs (fileTable pr) h [fd..<OPEN_MAX cfg]) \<le> countRef f \<longrightarrow>
      closes h (trace s') = closes h (trace s) +
        (if 0 < slot_refs (fileTable pr) h [fd..<OPEN_MAX cfg] \<and>
            countRef f = int (slot_refs (fileTable pr) h [fd..<OPEN_MAX cfg]) \<and> vn f \<noteq> None
         then 1 else 0)) \<and>
   processTable s' = processTable s \<and> names s' = names s \<and> sems s' = sems s \<and> cvs s' = cvs s \<and>
   kproc s' = kproc s \<and> curproc s' = curproc s"
proof (induction cfg a fd s arbitrary: pr rule: proc_destroy_files.induct)
  case (1 cfg a fd s)
  show ?case
  proof (cases "fd < OPEN_MAX cfg")
    case False
    with "1.prems"(1) have e: "s' = s"
      by (simp add: proc_destroy_files.simps [of cfg a fd s])
    from False have "(\<lambda>i. if fd \<le> i \<and> i < OPEN_MAX cfg then None else fileTable pr i) = fileTable pr"
      by (auto simp: fun_eq_iff)
    with e False "1.prems"(2) show ?thesis
      by (auto simp: hupdate_same slot_refs_Nil split: option.splits)
  next
    case True
    with "1.prems"(1) obtain s1 where st: "proc_destroy_slot a fd s = Inr s1"
      and rest: "proc_destroy_files cfg a (fd + 1) s1 = Inr s'"
      by (auto simp: proc_destroy_files.simps [of cfg a fd s] split: sum.splits)
    let ?pr1 = "pr\<lparr>fileTable := (fileTable pr)(fd := None)\<rparr>"
    let ?old = "[fd..<OPEN_MAX cfg]" and ?new = "[Suc fd..<OPEN_MAX cfg]"
    note S = proc_destroy_slot_result [OF st "1.prems"(2)]
    from S "1.prems"(2) have p1: "hlookup (procs s1) a = Some ?pr1"
      by (simp add: hlookup_hupdate hlookup_less)
    have suc: "fd + 1 = Suc fd" by simp
    note IH = "1.IH" [OF True st rest p1, unfolded suc]
    have c1: "slot_refs ((fileTable pr)(fd := None)) h ?new = slot_refs (fileTable pr) h ?new" for h
      by (rule slot_refs_cong) simp
    have c2: "slot_refs (fileTable pr) h ?old =
        (if fileTable pr fd = Some h then 1 else 0) + slot_refs (fileTable pr) h ?new" for h
      using slot_refs_from [OF True, of "fileTable pr" h] by simp
    have fe: "(\<lambda>i. if Suc fd \<le> i \<and> i < OPEN_MAX cfg then None else fileTable ?pr1 i)
        = (\<lambda>i. if fd \<le> i \<and> i < OPEN_MAX cfg then None else fileTable pr i)"
      using True by (auto simp: fun_eq_iff)
    have p: "procs s' = hupdate (procs s) a
       (pr\<lparr>fileTable := (\<lambda>i. if fd \<le> i \<and> i < OPEN_MAX cfg then None else fileTable pr i)\<rparr>)"
      using IH S fe by (simp add: hupdate_hupdate)
    have o: "hlookup (openfiles s') h =
      (case hlookup (openfiles s) h of
         None \<Rightarrow> None
       | Some f \<Rightarrow> Some (f\<lparr>countRef := countRef f - int (slot_refs (fileTable pr) h ?old)\<rparr>))" for h
    proof (cases "hlookup (openfiles s) h")
      case None
      with S have "hlookup (openfiles s1) h = None" by simp
      with IH None show ?thesis by simp
    next
      case (Some f)
      let ?f1 = "if fileTable pr fd = Some h then f\<lparr>countRef := countRef f - 1\<rparr> else f"
      from S Some have "hlookup (openfiles s1) h = Some ?f1" by simp
      with IH have "hlookup (openfiles s') h =
          Some (?f1\<lparr>countRef := countRef ?f1 - int (slot_refs (fileTable ?pr1) h ?new)\<rparr>)"
        by simp
      with Some show ?thesis
        by (cases "fileTable pr fd = Some h") (simp_all add: c1 c2)
    qed
    have c: "closes h (trace s') = closes h (trace s) +
        (if 0 < slot_refs (fileTable pr) h ?old \<and>
            countRef f = int (slot_refs (fileTable pr) h ?old) \<and> vn f \<noteq> None
         then 1 else 0)"
      if f: "hlookup (openfiles s) h = Some f" and le: "int (slot_refs (fileTable pr) h ?old) \<le> countRef f"
      for h f
    proof -
      let ?f1 = "if fileTable pr fd = Some h then f\<lparr>countRef := countRef f - 1\<rparr> else f"
      from S f have f1: "hlookup (openfiles s1) h = Some ?f1" by simp
      from le have le1: "int (slot_refs (fileTable ?pr1) h ?new) \<le> countRef ?f1"
        by (simp add: c1 c2 split: if_splits)
      from IH f1 le1 have a: "closes h (trace s') = closes h (trace s1) +
        (if 0 < slot_refs (fileTable ?pr1) h ?new \<and>
            countRef ?f1 = int (slot_refs (fileTable ?pr1) h ?new) \<and> vn ?f1 \<noteq> None
         then 1 else 0)"
        by blast
      from S f have b: "closes h (trace s1) = closes h (trace s) +
          (if fileTable pr fd = Some h \<and> countRef f = 1 \<and> vn f \<noteq> None then 1 else 0)"
        by simp
      from a b le show ?thesis
        by (auto simp: c1 c2 split: if_splits)
    qed
    from p o c IH S show ?thesis by simp
  qed
qed

section \<open>The destruction of a process: the call returns\<close>


lemma proc_cwd_None: "p_cwd pr = None \<Longrightarrow> pr\<lparr>p_cwd := None\<rparr> = pr"
  by (cases pr) auto

lemma proc_addrspace_None: "p_addrspace pr = None \<Longrightarrow> pr\<lparr>p_addrspace := None\<rparr> = pr"
  by (cases pr) auto

text \<open>The two blocks at the head of \<open>proc_destroy\<close> return, and close no file.\<close>

lemma proc_destroy_vfs_ok:
  assumes pr: "hlookup (procs s) a = Some pr"
  shows "\<exists>s1 t. proc_destroy_vfs a s = Inr s1 \<and>
     s1 = s\<lparr>trace := t, procs := hupdate (procs s) a (pr\<lparr>p_cwd := None\<rparr>)\<rparr> \<and>
     (\<forall>h. closes h t = closes h (trace s))"
proof (cases "p_cwd pr")
  case None
  with pr have hp: "hupdate (procs s) a (pr\<lparr>p_cwd := None\<rparr>) = procs s"
    by (simp add: proc_cwd_None hupdate_same)
  from pr None have r: "proc_destroy_vfs a s = Inr s"
    by (simp add: proc_destroy_vfs_def proc_read_def andthen_def)
  show ?thesis
    by (rule exI [of _ s], rule exI [of _ "trace s"]) (simp add: r hp)
next
  case (Some v)
  with pr have r: "proc_destroy_vfs a s =
      Inr (s\<lparr>trace := trace s @ [VOP_DECREF v], procs := hupdate (procs s) a (pr\<lparr>p_cwd := None\<rparr>)\<rparr>)"
    by (simp add: proc_destroy_vfs_def proc_read_def proc_write_def andthen_def emit_def)
  show ?thesis
    by (rule exI [of _ "s\<lparr>trace := trace s @ [VOP_DECREF v], procs := hupdate (procs s) a (pr\<lparr>p_cwd := None\<rparr>)\<rparr>"],
        rule exI [of _ "trace s @ [VOP_DECREF v]"])
       (simp add: r closes_append closes_single)
qed

lemma proc_destroy_vm_ok:
  assumes pr: "hlookup (procs s) a = Some pr"
  shows "\<exists>s1 t. proc_destroy_vm a s = Inr s1 \<and>
     s1 = s\<lparr>trace := t, procs := hupdate (procs s) a (pr\<lparr>p_addrspace := None\<rparr>)\<rparr> \<and>
     (\<forall>h. closes h t = closes h (trace s))"
proof (cases "p_addrspace pr")
  case None
  with pr have hp: "hupdate (procs s) a (pr\<lparr>p_addrspace := None\<rparr>) = procs s"
    by (simp add: proc_addrspace_None hupdate_same)
  from pr None have r: "proc_destroy_vm a s = Inr s"
    by (simp add: proc_destroy_vm_def proc_read_def andthen_def)
  show ?thesis
    by (rule exI [of _ s], rule exI [of _ "trace s"]) (simp add: r hp)
next
  case (Some x)
  let ?p = "hupdate (procs s) a (pr\<lparr>p_addrspace := None\<rparr>)"
  show ?thesis
  proof (cases "Some a = curproc s")
    case True
    then have c: "curproc s = Some a" by simp
    from pr Some c have r: "proc_destroy_vm a s =
        Inr (s\<lparr>trace := trace s @ [AS_DEACTIVATE, AS_DESTROY x], procs := ?p\<rparr>)"
      by (simp add: proc_destroy_vm_def proc_setas_def as_destroy_def proc_read_def proc_write_def
          andthen_def emit_def)
    show ?thesis
      by (rule exI [of _ "s\<lparr>trace := trace s @ [AS_DEACTIVATE, AS_DESTROY x], procs := ?p\<rparr>"],
          rule exI [of _ "trace s @ [AS_DEACTIVATE, AS_DESTROY x]"])
         (simp add: r closes_append closes_def)
  next
    case False
    with pr Some have r: "proc_destroy_vm a s =
        Inr (s\<lparr>trace := trace s @ [AS_DESTROY x], procs := ?p\<rparr>)"
      by (simp add: proc_destroy_vm_def as_destroy_def proc_read_def proc_write_def
          andthen_def emit_def)
    show ?thesis
      by (rule exI [of _ "s\<lparr>trace := trace s @ [AS_DESTROY x], procs := ?p\<rparr>"],
          rule exI [of _ "trace s @ [AS_DESTROY x]"])
         (simp add: r closes_append closes_def)
  qed
qed

text \<open>The release returns when the rendezvous primitive is ready.\<close>

lemma proc_end_waitpid_ok:
  assumes pr: "hlookup (procs s) a = Some pr" and lo: "0 < p_pid pr" and hi: "p_pid pr \<le> MAX_PROC"
    and rdy: "rendezvous_ready cfg s pr"
  shows "\<exists>s1. proc_end_waitpid cfg a s = Inr s1 \<and>
     (\<forall>k. p_cv_lock pr \<noteq> Some k \<or> USE_SEMAPHORE_FOR_WAITPID cfg \<longrightarrow>
          hlookup (locks s1) k = hlookup (locks s) k)"
proof (cases "USE_SEMAPHORE_FOR_WAITPID cfg")
  case True
  with rdy obtain m v where "p_sem pr = Some m" "hlookup (sems s) m = Some v"
    by (auto simp: rendezvous_ready_def split: option.splits)
  with pr lo hi True show ?thesis
    by (simp add: proc_end_waitpid_def Let_def sem_destroy_def)
next
  case False
  with rdy obtain c v lc where "p_cv pr = Some c" "hlookup (cvs s) c = Some v"
    "p_cv_lock pr = Some lc" "hlookup (locks s) lc = Some False"
    by (auto simp: rendezvous_ready_def split: option.splits)
  with pr lo hi False show ?thesis
    by (simp add: proc_end_waitpid_def Let_def cv_destroy_def lock_destroy_def andthen_def
        hlookup_hfree)
qed

lemma rendezvous_ready_cong:
  "sems s' = sems s \<Longrightarrow> cvs s' = cvs s \<Longrightarrow> locks s' = locks s \<Longrightarrow> openfiles s' = openfiles s \<Longrightarrow>
   p_sem pr' = p_sem pr \<Longrightarrow> p_cv pr' = p_cv pr \<Longrightarrow> p_cv_lock pr' = p_cv_lock pr \<Longrightarrow>
   ft_lock pr' = ft_lock pr \<Longrightarrow> fileTable pr' = fileTable pr \<Longrightarrow>
   rendezvous_ready cfg s' pr' = rendezvous_ready cfg s pr"
proof -
  assume a: "sems s' = sems s" "cvs s' = cvs s" "locks s' = locks s" "openfiles s' = openfiles s"
    "p_sem pr' = p_sem pr" "p_cv pr' = p_cv pr" "p_cv_lock pr' = p_cv_lock pr"
    "ft_lock pr' = ft_lock pr" "fileTable pr' = fileTable pr"
  have hl: "handle_lock s' = handle_lock s" by (simp add: fun_eq_iff handle_lock_def a)
  show ?thesis by (simp only: rendezvous_ready_def a hl)
qed

lemma files_ready_cong:
  "locks s' = locks s \<Longrightarrow> openfiles s' = openfiles s \<Longrightarrow>
   ft_lock pr' = ft_lock pr \<Longrightarrow> fileTable pr' = fileTable pr \<Longrightarrow>
   files_ready cfg s' pr' fd = files_ready cfg s pr fd"
proof -
  assume a: "locks s' = locks s" "openfiles s' = openfiles s"
    "ft_lock pr' = ft_lock pr" "fileTable pr' = fileTable pr"
  have hl: "handle_lock s' = handle_lock s" by (simp add: fun_eq_iff handle_lock_def a)
  have "slot_ready s' pr' fds i = slot_ready s pr fds i" for fds i
    by (simp only: slot_ready_def a hl)
  then have "slot_ready s' pr' fds = slot_ready s pr fds" for fds by (simp add: fun_eq_iff)
  then show ?thesis by (simp only: files_ready_def)
qed

text \<open>Readiness of a file table depends on the locks of its handles only.\<close>

lemma files_ready_locks:
  assumes rdy: "files_ready cfg s pr fd" and o: "openfiles s' = openfiles s"
    and lk: "\<And>i h k. i < OPEN_MAX cfg \<Longrightarrow> fileTable pr i = Some h \<Longrightarrow> handle_lock s h = Some k \<Longrightarrow>
        hlookup (locks s') k = hlookup (locks s) k"
  shows "files_ready cfg s' pr fd"
  unfolding files_ready_iff
proof (intro allI impI)
  fix i assume i: "fd \<le> i \<and> i < OPEN_MAX cfg"
  let ?fds = "[fd..<OPEN_MAX cfg]"
  from rdy i have r: "slot_ready s pr ?fds i" by (simp add: files_ready_iff)
  have hl: "handle_lock s' k = handle_lock s k" for k by (simp add: handle_lock_def o)
  show "slot_ready s' pr ?fds i"
  proof (cases "fileTable pr i")
    case None
    then show ?thesis by (rule slot_ready_None)
  next
    case (Some h)
    from r [unfolded slot_ready_Some [OF Some]] obtain f l where
      f: "hlookup (openfiles s) h = Some f" and l: "of_lock f = Some l"
      and fr: "hlookup (locks s) l = Some False" and nl: "ft_lock pr \<noteq> Some l"
      and cnt: "int (slot_refs (fileTable pr) h ?fds) \<le> countRef f"
      and oth: "\<forall>j \<in> set ?fds. \<forall>h'. fileTable pr j = Some h' \<longrightarrow> h' = h \<or> handle_lock s h' \<noteq> Some l"
      by blast
    from f l have "handle_lock s h = Some l" by (simp add: handle_lock_def)
    from lk [OF _ Some this] i fr have fr': "hlookup (locks s') l = Some False" by simp
    show ?thesis
      unfolding slot_ready_Some [OF Some]
      by (rule exI [of _ f], rule exI [of _ l]) (use f l fr' nl cnt oth in \<open>simp add: o hl\<close>)
  qed
qed


lemma kfree_name_ok:
  "(case n of None \<Rightarrow> True | Some x \<Rightarrow> hlookup (names s) x \<noteq> None) \<Longrightarrow>
   \<exists>ns. kfree_name n s = Inr (s\<lparr>names := ns\<rparr>)"
proof (cases n)
  case None
  have "s = s\<lparr>names := names s\<rparr>" by simp
  with None show ?thesis unfolding kfree_name_def by (simp only: option.case) blast
next
  case (Some x)
  assume "case n of None \<Rightarrow> True | Some x \<Rightarrow> hlookup (names s) x \<noteq> None"
  with Some show ?thesis by (auto simp: kfree_name_def)
qed

text \<open>
  \<open>proc_destroy\<close> returns for a process that is ready to be destroyed and is not the
  kernel process. The PCB is freed, the slot of its identifier is emptied, the count of
  every handle drops by the number of slots of the table that referenced it, and a
  handle is closed when that takes its count to zero.
\<close>

lemma proc_destroy_ok:
  assumes rdy: "destroy_ready cfg s a" and nk: "kproc s \<noteq> Some a"
    and pr: "hlookup (procs s) a = Some pr"
  shows "\<exists>s'. proc_destroy cfg (Some a) s = Inr s' \<and>
     procs s' = hfree (procs s) a \<and>
     length (openfiles s') = length (openfiles s) \<and>
     (\<forall>h. hlookup (openfiles s') h =
        (case hlookup (openfiles s) h of
           None \<Rightarrow> None
         | Some f \<Rightarrow> Some (f\<lparr>countRef := countRef f - int (slot_refs (fileTable pr) h [0..<OPEN_MAX cfg])\<rparr>))) \<and>
     (\<forall>h f. hlookup (openfiles s) h = Some f \<longrightarrow>
        int (slot_refs (fileTable pr) h [0..<OPEN_MAX cfg]) \<le> countRef f \<longrightarrow>
        closes h (trace s') = closes h (trace s) +
          (if 0 < slot_refs (fileTable pr) h [0..<OPEN_MAX cfg] \<and>
              countRef f = int (slot_refs (fileTable pr) h [0..<OPEN_MAX cfg]) \<and> vn f \<noteq> None
           then 1 else 0)) \<and>
     slots (processTable s') = (slots (processTable s))(nat (p_pid pr) := None) \<and>
     last_i (processTable s') = last_i (processTable s) \<and> \<not> is_full (processTable s') \<and>
     kproc s' = kproc s \<and> curproc s' = curproc s"
proof -
  from rdy pr obtain l where
    nt: "p_numthreads pr = 0" and lo: "0 < p_pid pr" and hi: "p_pid pr \<le> MAX_PROC"
    and rv: "rendezvous_ready cfg s pr" and l: "ft_lock pr = Some l"
    and lf: "hlookup (locks s) l = Some False"
    and nm: "case p_name pr of None \<Rightarrow> True | Some n \<Rightarrow> hlookup (names s) n \<noteq> None"
    and fr: "files_ready cfg s pr 0"
    by (auto simp: destroy_ready_def split: option.splits)
  from pr have al: "a < length (procs s)" by (rule hlookup_less)
  define pr1 where "pr1 = pr\<lparr>p_cwd := None\<rparr>"
  define pr3 where "pr3 = pr1\<lparr>p_addrspace := None\<rparr>"
  from proc_destroy_vfs_ok [OF pr] obtain s1 t1 where
    r1: "proc_destroy_vfs a s = Inr s1"
    and e1: "s1 = s\<lparr>trace := t1, procs := hupdate (procs s) a pr1\<rparr>"
    and c1: "\<And>h. closes h t1 = closes h (trace s)"
    unfolding pr1_def by blast
  from e1 al have p1: "hlookup (procs s1) a = Some pr1" by (simp add: hlookup_hupdate)
  from proc_destroy_vm_ok [OF p1] obtain s3 t3 where
    r3: "proc_destroy_vm a s1 = Inr s3"
    and e3': "s3 = s1\<lparr>trace := t3, procs := hupdate (procs s1) a pr3\<rparr>"
    and c3: "\<And>h. closes h t3 = closes h (trace s1)"
    unfolding pr3_def by blast
  from e1 e3' have e3: "s3 = s\<lparr>trace := t3, procs := hupdate (procs s) a pr3\<rparr>"
    by (simp add: hupdate_hupdate)
  from c1 c3 e1 have c3s: "closes h t3 = closes h (trace s)" for h by simp
  have g3: "p_numthreads pr3 = 0" "p_pid pr3 = p_pid pr" "ft_lock pr3 = Some l"
    "p_name pr3 = p_name pr" "fileTable pr3 = fileTable pr" "p_sem pr3 = p_sem pr"
    "p_cv pr3 = p_cv pr" "p_cv_lock pr3 = p_cv_lock pr"
    by (simp_all add: pr3_def pr1_def nt l)
  from e3 al have p3: "hlookup (procs s3) a = Some pr3" by (simp add: hlookup_hupdate)
  define s3e where "s3e = emit (SPINLOCK_CLEANUP a) s3"
  have f3: "procs s3e = hupdate (procs s) a pr3" "locks s3e = locks s" "openfiles s3e = openfiles s"
    "names s3e = names s" "sems s3e = sems s" "cvs s3e = cvs s"
    "processTable s3e = processTable s" "kproc s3e = kproc s" "curproc s3e = curproc s"
    by (simp_all add: s3e_def emit_def e3)
  have t3e: "closes h (trace s3e) = closes h (trace s)" for h
    by (simp add: s3e_def emit_def e3 closes_append closes_single c3s)
  from al have p3e: "hlookup (procs s3e) a = Some pr3" by (simp add: f3 hlookup_hupdate)
  from rv have rv3: "rendezvous_ready cfg s3e pr3"
    by (simp add: rendezvous_ready_cong [of s3e s pr3 pr cfg] f3 g3 l)
  from fr have fr3: "files_ready cfg s3e pr3 0"
    by (simp add: files_ready_cong [of s3e s pr3 pr cfg 0] f3 g3 l)
  from lo hi have lo3: "0 < p_pid pr3" and hi3: "p_pid pr3 \<le> MAX_PROC" by (simp_all add: g3)
  from proc_end_waitpid_ok [OF p3e lo3 hi3 rv3] obtain s4 where
    r4: "proc_end_waitpid cfg a s3e = Inr s4"
    and k4: "\<And>k. p_cv_lock pr3 \<noteq> Some k \<or> USE_SEMAPHORE_FOR_WAITPID cfg \<Longrightarrow>
        hlookup (locks s4) k = hlookup (locks s3e) k"
    by blast
  note R4 = proc_end_waitpid_result [OF r4 p3e]
  have fr4: "files_ready cfg s4 pr3 0"
  proof (rule files_ready_locks [OF fr3])
    show "openfiles s4 = openfiles s3e" using R4 by simp
  next
    fix i h k
    assume i: "i < OPEN_MAX cfg" and h: "fileTable pr3 i = Some h"
      and k: "handle_lock s3e h = Some k"
    show "hlookup (locks s4) k = hlookup (locks s3e) k"
    proof (cases "USE_SEMAPHORE_FOR_WAITPID cfg")
      case True
      then show ?thesis by (simp add: k4)
    next
      case False
      with rv3 obtain lc where lc: "p_cv_lock pr3 = Some lc"
        and all: "list_all (\<lambda>fd. case fileTable pr3 fd of None \<Rightarrow> True
                         | Some h \<Rightarrow> handle_lock s3e h \<noteq> Some lc) [0..<OPEN_MAX cfg]"
        by (auto simp: rendezvous_ready_def split: option.splits)
      from all i h have "handle_lock s3e h \<noteq> Some lc"
        by (auto simp: list_all_iff split: option.splits)
      with k lc have "p_cv_lock pr3 \<noteq> Some k" by auto
      then show ?thesis by (simp add: k4)
    qed
  qed
  have l4: "hlookup (locks s4) l = Some False"
  proof (cases "USE_SEMAPHORE_FOR_WAITPID cfg")
    case True
    then show ?thesis by (simp add: k4 f3 lf)
  next
    case False
    with rv3 have "p_cv_lock pr3 \<noteq> Some l"
      by (auto simp: rendezvous_ready_def g3 split: option.splits)
    then show ?thesis by (simp add: k4 f3 lf)
  qed
  from R4 p3e have p4: "hlookup (procs s4) a = Some pr3" by simp
  from proc_destroy_files_ok [OF p4 fr4 g3(3) l4] obtain s5 where
    r5: "proc_destroy_files cfg a 0 s4 = Inr s5" and l5: "hlookup (locks s5) l = Some False"
    by blast
  note R5 = proc_destroy_files_result [OF r5 p4]
  define pr5 where
    "pr5 = pr3\<lparr>fileTable := (\<lambda>i. if i < OPEN_MAX cfg then None else fileTable pr3 i)\<rparr>"
  from R5 have ps5: "procs s5 = hupdate (procs s4) a pr5" by (simp add: pr5_def)
  from ps5 R4 f3 have ps5': "procs s5 = hupdate (procs s) a pr5" by (simp add: hupdate_hupdate)
  from ps5' al have p5: "hlookup (procs s5) a = Some pr5" by (simp add: hlookup_hupdate)
  have g5: "ft_lock pr5 = Some l" "p_name pr5 = p_name pr" by (simp_all add: pr5_def g3)
  define s6 where "s6 = s5\<lparr>locks := hfree (locks s5) l\<rparr>"
  from l5 have r6: "lock_destroy (Some l) s5 = Inr s6" by (simp add: lock_destroy_ok s6_def)
  have n6: "names s6 = names s" using R5 R4 f3 by (simp add: s6_def)
  from nm have "case p_name pr of None \<Rightarrow> True | Some x \<Rightarrow> hlookup (names s6) x \<noteq> None"
    unfolding n6 .
  from kfree_name_ok [OF this] obtain ns where r7: "kfree_name (p_name pr) s6 = Inr (s6\<lparr>names := ns\<rparr>)"
    by blast
  define s7 where "s7 = s6\<lparr>names := ns\<rparr>"
  have p7: "procs s7 = procs s5" by (simp add: s7_def s6_def)
  from p5 have r8: "kfree_proc (Some a) s7 = Inr (s7\<lparr>procs := hfree (procs s7) a\<rparr>)"
    by (simp add: kfree_proc_def p7)
  define s8 where "s8 = s7\<lparr>procs := hfree (procs s7) a\<rparr>"
  from nk have nk': "Some a \<noteq> kproc s" by auto
  have run: "proc_destroy cfg (Some a) s = Inr s8"
    unfolding proc_destroy_def
    by (simp add: nk' andthen_def r1 r3 proc_read_Inr [THEN iffD2, OF p3]
        proc_read_Inr [THEN iffD2, OF p5] g3 g5 s3e_def [symmetric] r4 r5 r6
        r7 [folded s7_def] r8 [folded s8_def])
  have o8: "openfiles s8 = openfiles s5" "trace s8 = trace s5" "processTable s8 = processTable s5"
    "kproc s8 = kproc s5" "curproc s8 = curproc s5"
    by (simp_all add: s8_def s7_def s6_def)
  have a1: "procs s8 = hfree (procs s) a"
    by (simp add: s8_def p7 ps5' hfree_hupdate)
  have a2: "length (openfiles s8) = length (openfiles s)"
    using R5 R4 by (simp add: o8 f3)
  have a3: "hlookup (openfiles s8) h =
        (case hlookup (openfiles s) h of
           None \<Rightarrow> None
         | Some f \<Rightarrow> Some (f\<lparr>countRef := countRef f - int (slot_refs (fileTable pr) h [0..<OPEN_MAX cfg])\<rparr>))"
    for h
    using R5 R4 by (simp add: o8 f3 g3 cong: option.case_cong)
  have a4: "closes h (trace s8) = closes h (trace s) +
          (if 0 < slot_refs (fileTable pr) h [0..<OPEN_MAX cfg] \<and>
              countRef f = int (slot_refs (fileTable pr) h [0..<OPEN_MAX cfg]) \<and> vn f \<noteq> None
           then 1 else 0)"
    if f: "hlookup (openfiles s) h = Some f"
      and le: "int (slot_refs (fileTable pr) h [0..<OPEN_MAX cfg]) \<le> countRef f" for h f
  proof -
    from R4 f have f4: "hlookup (openfiles s4) h = Some f" by (simp add: f3)
    from le have le4: "int (slot_refs (fileTable pr3) h [0..<OPEN_MAX cfg]) \<le> countRef f"
      by (simp add: g3)
    from R5 f4 le4 have "closes h (trace s5) = closes h (trace s4) +
          (if 0 < slot_refs (fileTable pr3) h [0..<OPEN_MAX cfg] \<and>
              countRef f = int (slot_refs (fileTable pr3) h [0..<OPEN_MAX cfg]) \<and> vn f \<noteq> None
           then 1 else 0)"
      by blast
    with R4 show ?thesis by (simp add: o8 g3 t3e)
  qed
  have a5: "slots (processTable s8) = (slots (processTable s))(nat (p_pid pr) := None)"
    "last_i (processTable s8) = last_i (processTable s)" "\<not> is_full (processTable s8)"
    "kproc s8 = kproc s" "curproc s8 = curproc s"
    using R5 R4 by (simp_all add: o8 f3 g3)
  from run a1 a2 a3 a4 a5 show ?thesis by blast
qed

section \<open>The reference-count invariant\<close>


text \<open>
  The invariant after a duplication into an empty table, and after the destruction of
  a process, from what the two calls have done.
\<close>

lemma refcount_inv_after_copy:
  assumes inv: "refcount_inv cfg s" and dr: "hlookup (procs s) pdest = Some dr"
    and emp: "table_empty cfg dr"
    and p: "procs s' = hupdate (procs s) pdest
       (dr\<lparr>fileTable := (\<lambda>i. if i < OPEN_MAX cfg then fileTable sr i else fileTable dr i)\<rparr>)"
    and o: "\<forall>h. hlookup (openfiles s') h =
        (case hlookup (openfiles s) h of
           None \<Rightarrow> None
         | Some f \<Rightarrow> Some (f\<lparr>countRef := countRef f + int (slot_refs (fileTable sr) h [0..<OPEN_MAX cfg])\<rparr>))"
  shows "refcount_inv cfg s'"
  unfolding refcount_inv_iff
proof (intro allI impI)
  fix h f' assume f': "hlookup (openfiles s') h = Some f'"
  let ?m = "slot_refs (fileTable sr) h [0..<OPEN_MAX cfg]"
  let ?dr' = "dr\<lparr>fileTable := (\<lambda>i. if i < OPEN_MAX cfg then fileTable sr i else fileTable dr i)\<rparr>"
  from f' o obtain f where f: "hlookup (openfiles s) h = Some f"
    and e: "f' = f\<lparr>countRef := countRef f + int ?m\<rparr>"
    by (auto split: option.splits)
  from inv f have c: "countRef f = int (total_refs cfg s h)" by (simp add: refcount_inv_iff)
  from dr have al: "pdest < length (procs s)" by (rule hlookup_less)
  from dr al have nth: "procs s ! pdest = Some dr" by (simp add: hlookup_def)
  from p have p': "procs s' = (procs s)[pdest := Some ?dr']" by (simp add: hupdate_def)
  from emp have z: "slot_refs (fileTable dr) h [0..<OPEN_MAX cfg] = 0"
    by (simp add: slot_refs_zero_iff table_empty_iff)
  have n: "slot_refs (\<lambda>i. if i < OPEN_MAX cfg then fileTable sr i else fileTable dr i) h
      [0..<OPEN_MAX cfg] = ?m"
    by (rule slot_refs_cong) simp
  from total_refs_update [OF al p', of cfg h]
  have "total_refs cfg s' h = total_refs cfg s h + ?m"
    by (simp add: nth proc_refs_def z n)
  with c e show "countRef f' = int (total_refs cfg s' h)" by simp
qed

lemma refcount_inv_after_destroy:
  assumes inv: "refcount_inv cfg s" and pr: "hlookup (procs s) a = Some pr"
    and p: "procs s' = hfree (procs s) a"
    and o: "\<forall>h. hlookup (openfiles s') h =
        (case hlookup (openfiles s) h of
           None \<Rightarrow> None
         | Some f \<Rightarrow> Some (f\<lparr>countRef := countRef f - int (slot_refs (fileTable pr) h [0..<OPEN_MAX cfg])\<rparr>))"
  shows "refcount_inv cfg s'"
  unfolding refcount_inv_iff
proof (intro allI impI)
  fix h f' assume f': "hlookup (openfiles s') h = Some f'"
  let ?m = "slot_refs (fileTable pr) h [0..<OPEN_MAX cfg]"
  from f' o obtain f where f: "hlookup (openfiles s) h = Some f"
    and e: "f' = f\<lparr>countRef := countRef f - int ?m\<rparr>"
    by (auto split: option.splits)
  from inv f have c: "countRef f = int (total_refs cfg s h)" by (simp add: refcount_inv_iff)
  from pr have al: "a < length (procs s)" by (rule hlookup_less)
  from pr al have nth: "procs s ! a = Some pr" by (simp add: hlookup_def)
  from p have p': "procs s' = (procs s)[a := None]" by (simp add: hfree_def)
  from total_refs_update [OF al p', of cfg h]
  have "total_refs cfg s' h + ?m = total_refs cfg s h"
    by (simp add: nth proc_refs_def)
  with c e show "countRef f' = int (total_refs cfg s' h)" by simp
qed

lemma proc_file_table_copy_result_at:
  assumes run: "proc_file_table_copy cfg psrc pdest s = Inr s'"
    and sr: "hlookup (procs s) psrc = Some sr" and dr: "hlookup (procs s) pdest = Some dr"
  shows "procs s' = hupdate (procs s) pdest
       (dr\<lparr>fileTable := (\<lambda>i. if i < OPEN_MAX cfg then fileTable sr i else fileTable dr i)\<rparr>) \<and>
     (\<forall>h. hlookup (openfiles s') h =
        (case hlookup (openfiles s) h of
           None \<Rightarrow> None
         | Some f \<Rightarrow> Some (f\<lparr>countRef := countRef f + int (slot_refs (fileTable sr) h [0..<OPEN_MAX cfg])\<rparr>)))"
  using proc_file_table_copy_result [OF run] sr dr by auto

lemma upt_0_2: "[0..<2] = [0, Suc 0]"
  by (simp add: upt_rec)

text \<open>
  C3. The invariant holds after a duplication for a destination table that is empty,
  and then the destination's slots are the source's; it holds after the destruction of
  a process, and then the PCB is freed. Both calls return in a state that is ready for
  them. A duplication into a table that holds a handle overwrites the slot without
  dropping the reference it held, and the invariant is lost.
\<close>

theorem refcount_invariant_preserved:
  assumes inv: "refcount_inv cfg s"
  shows "(copy_ready cfg s psrc pdest \<longrightarrow> hlookup (procs s) psrc = Some sr \<longrightarrow>
          hlookup (procs s) pdest = Some dr \<longrightarrow> table_empty cfg dr \<longrightarrow>
            (\<exists>s' dr'. proc_file_table_copy cfg psrc pdest s = Inr s' \<and> refcount_inv cfg s' \<and>
               hlookup (procs s') pdest = Some dr' \<and>
               (\<forall>fd < OPEN_MAX cfg. fileTable dr' fd = fileTable sr fd))) \<and>
         (destroy_ready cfg s a \<longrightarrow> kproc s \<noteq> Some a \<longrightarrow>
            (\<exists>s'. proc_destroy cfg (Some a) s = Inr s' \<and> refcount_inv cfg s' \<and>
               procs s' = hfree (procs s) a))"
proof (intro conjI impI)
  assume rdy: "copy_ready cfg s psrc pdest" and sr: "hlookup (procs s) psrc = Some sr"
    and dr: "hlookup (procs s) pdest = Some dr" and emp: "table_empty cfg dr"
  let ?dr' = "dr\<lparr>fileTable := (\<lambda>i. if i < OPEN_MAX cfg then fileTable sr i else fileTable dr i)\<rparr>"
  from proc_file_table_copy_total [OF rdy]
  obtain s' where run: "proc_file_table_copy cfg psrc pdest s = Inr s'" ..
  from proc_file_table_copy_result_at [OF run sr dr] have
    p: "procs s' = hupdate (procs s) pdest ?dr'"
    and o: "\<forall>h. hlookup (openfiles s') h =
        (case hlookup (openfiles s) h of
           None \<Rightarrow> None
         | Some f \<Rightarrow> Some (f\<lparr>countRef := countRef f + int (slot_refs (fileTable sr) h [0..<OPEN_MAX cfg])\<rparr>))"
    by blast+
  from refcount_inv_after_copy [OF inv dr emp p o] have i': "refcount_inv cfg s'" .
  from dr have "pdest < length (procs s)" by (rule hlookup_less)
  with p have d': "hlookup (procs s') pdest = Some ?dr'" by (simp add: hlookup_hupdate)
  have "\<forall>fd < OPEN_MAX cfg. fileTable ?dr' fd = fileTable sr fd" by simp
  with run i' d' show "\<exists>s' dr'. proc_file_table_copy cfg psrc pdest s = Inr s' \<and> refcount_inv cfg s' \<and>
               hlookup (procs s') pdest = Some dr' \<and>
               (\<forall>fd < OPEN_MAX cfg. fileTable dr' fd = fileTable sr fd)"
    by blast
next
  assume rdy: "destroy_ready cfg s a" and nk: "kproc s \<noteq> Some a"
  from rdy obtain pr where pr: "hlookup (procs s) a = Some pr"
    by (auto simp: destroy_ready_def split: option.splits)
  from proc_destroy_ok [OF rdy nk pr] obtain s' where
    run: "proc_destroy cfg (Some a) s = Inr s'" and p: "procs s' = hfree (procs s) a"
    and o: "\<forall>h. hlookup (openfiles s') h =
        (case hlookup (openfiles s) h of
           None \<Rightarrow> None
         | Some f \<Rightarrow> Some (f\<lparr>countRef := countRef f - int (slot_refs (fileTable pr) h [0..<OPEN_MAX cfg])\<rparr>))"
    by blast
  from refcount_inv_after_destroy [OF inv pr p o] run p
  show "\<exists>s'. proc_destroy cfg (Some a) s = Inr s' \<and> refcount_inv cfg s' \<and> procs s' = hfree (procs s) a"
    by blast
qed

lemma refcount_inv_fork_kernel: "refcount_inv example_config fork_kernel"
  by (simp add: refcount_inv_def total_refs_def proc_refs_def slot_refs_def fork_kernel_def
      two_table_kernel_def empty_kernel_def example_config_def fresh_proc_def
      upt_rec [of 0] upt_rec [of 1])

lemma refcount_inv_two_table_kernel: "refcount_inv example_config two_table_kernel"
  by (simp add: refcount_inv_def total_refs_def proc_refs_def slot_refs_def
      two_table_kernel_def empty_kernel_def example_config_def fresh_proc_def
      upt_rec [of 0] upt_rec [of 1])

lemma copy_ready_fork_kernel: "copy_ready example_config fork_kernel 0 1"
  by (simp add: copy_ready_def fork_kernel_def two_table_kernel_def empty_kernel_def
      example_config_def hlookup_def fresh_proc_def list_all_iff)

lemma destroy_ready_fork_kernel: "destroy_ready example_config fork_kernel 0"
  by (simp add: destroy_ready_def rendezvous_ready_def files_ready_def slot_ready_def
      handle_lock_def slot_refs_def fork_kernel_def two_table_kernel_def empty_kernel_def
      example_config_def hlookup_def fresh_proc_def MAX_PROC_def upt_0_2)

theorem refcount_invariant_preserved_witness:
  "refcount_inv example_config fork_kernel \<and>
   copy_ready example_config fork_kernel 0 1 \<and>
   destroy_ready example_config fork_kernel 0 \<and>
   (\<exists>s' dr'. proc_file_table_copy example_config 0 1 fork_kernel = Inr s' \<and>
      refcount_inv example_config s' \<and> hlookup (procs s') 1 = Some dr' \<and>
      fileTable dr' 0 = Some 0 \<and> fileTable dr' 1 = None) \<and>
   (\<exists>s'. proc_destroy example_config (Some 0) fork_kernel = Inr s' \<and>
      refcount_inv example_config s' \<and> hlookup (procs s') 0 = None)"
proof -
  let ?sr = "fresh_proc\<lparr>p_name := Some 0, ft_lock := Some 1, p_pid := 1, p_sem := Some 0,
                         fileTable := (\<lambda>fd. None)(0 := Some 0)\<rparr>"
  let ?dr = "fresh_proc\<lparr>p_name := Some 1, ft_lock := Some 2, p_pid := 2, p_sem := Some 1\<rparr>"
  have sr: "hlookup (procs fork_kernel) 0 = Some ?sr"
    and dr: "hlookup (procs fork_kernel) 1 = Some ?dr"
    by (simp_all add: fork_kernel_def two_table_kernel_def empty_kernel_def hlookup_def)
  have emp: "table_empty example_config ?dr"
    by (simp add: table_empty_def fresh_proc_def list_all_iff)
  have nk: "kproc fork_kernel \<noteq> Some 0"
    by (simp add: fork_kernel_def two_table_kernel_def empty_kernel_def)
  note T = refcount_invariant_preserved [OF refcount_inv_fork_kernel,
      of 0 1 ?sr ?dr 0]
  from T copy_ready_fork_kernel sr dr emp obtain s' dr' where
    c: "proc_file_table_copy example_config 0 1 fork_kernel = Inr s'"
      "refcount_inv example_config s'" "hlookup (procs s') 1 = Some dr'"
      "\<forall>fd < OPEN_MAX example_config. fileTable dr' fd = fileTable ?sr fd"
    by blast
  from c(4) have c4: "fileTable dr' 0 = Some 0" "fileTable dr' 1 = None"
    by (simp_all add: example_config_def)
  from T destroy_ready_fork_kernel nk obtain s'' where
    d: "proc_destroy example_config (Some 0) fork_kernel = Inr s''"
      "refcount_inv example_config s''" "procs s'' = hfree (procs fork_kernel) 0"
    by blast
  from d(3) have d3: "hlookup (procs s'') 0 = None" by (simp add: hlookup_hfree)
  from refcount_inv_fork_kernel copy_ready_fork_kernel destroy_ready_fork_kernel
    c(1,2,3) c4 d(1,2) d3
  show ?thesis by blast
qed

text \<open>
  Process 0 holds handle 0 and process 1 holds handle 1, each counted once. The
  duplication from 0 to 1 returns; it has emptied descriptor 1 of process 1, and
  handle 1 is still counted once while no slot references it.
\<close>

theorem proc_file_table_copy_breaks_refcount_inv:
  "refcount_inv example_config two_table_kernel \<and>
   copy_ready example_config two_table_kernel 0 1 \<and>
   (\<exists>s'. proc_file_table_copy example_config 0 1 two_table_kernel = Inr s' \<and>
      \<not> refcount_inv example_config s')"
proof -
  let ?sr = "fresh_proc\<lparr>p_name := Some 0, ft_lock := Some 1, p_pid := 1, p_sem := Some 0,
                         fileTable := (\<lambda>fd. None)(0 := Some 0)\<rparr>"
  let ?dr = "fresh_proc\<lparr>p_name := Some 1, ft_lock := Some 2, p_pid := 2, p_sem := Some 1,
                         fileTable := (\<lambda>fd. None)(1 := Some 1)\<rparr>"
  let ?dr' = "?dr\<lparr>fileTable := (\<lambda>i. if i < OPEN_MAX example_config then fileTable ?sr i
                                     else fileTable ?dr i)\<rparr>"
  have sr: "hlookup (procs two_table_kernel) 0 = Some ?sr"
    and dr: "hlookup (procs two_table_kernel) 1 = Some ?dr"
    and ps: "procs two_table_kernel = [Some ?sr, Some ?dr]"
    and f1: "hlookup (openfiles two_table_kernel) 1 = Some \<lparr>vn = Some 8, countRef = 1, of_lock = Some 4\<rparr>"
    by (simp_all add: two_table_kernel_def empty_kernel_def hlookup_def)
  from proc_file_table_copy_total [OF copy_ready_two_table_kernel]
  obtain s' where run: "proc_file_table_copy example_config 0 1 two_table_kernel = Inr s'" ..
  from proc_file_table_copy_result_at [OF run sr dr] have
    p: "procs s' = hupdate (procs two_table_kernel) 1 ?dr'"
    and o: "\<forall>h. hlookup (openfiles s') h =
        (case hlookup (openfiles two_table_kernel) h of
           None \<Rightarrow> None
         | Some f \<Rightarrow> Some (f\<lparr>countRef := countRef f +
              int (slot_refs (fileTable ?sr) h [0..<OPEN_MAX example_config])\<rparr>))"
    by blast+
  have z: "slot_refs (fileTable ?sr) 1 [0..<OPEN_MAX example_config] = 0"
    by (simp add: slot_refs_def example_config_def upt_rec [of 0] upt_rec [of 1])
  from o f1 z have g1: "hlookup (openfiles s') 1 = Some \<lparr>vn = Some 8, countRef = 1, of_lock = Some 4\<rparr>"
    by simp
  from p have "procs s' = [Some ?sr, Some ?dr']" by (simp add: ps hupdate_def)
  then have t: "total_refs example_config s' 1 = 0"
    by (simp add: total_refs_def proc_refs_def slot_refs_def example_config_def
        upt_rec [of 0] upt_rec [of 1])
  have "\<not> refcount_inv example_config s'"
  proof
    assume "refcount_inv example_config s'"
    with g1 have "countRef \<lparr>vn = Some 8, countRef = 1, of_lock = Some 4\<rparr>
        = int (total_refs example_config s' 1)"
      unfolding refcount_inv_iff by blast
    with t show False by simp
  qed
  with run refcount_inv_two_table_kernel copy_ready_two_table_kernel show ?thesis by blast
qed

section \<open>The last reference to a handle\<close>






section \<open>Exit and wait\<close>


text \<open>Writing the exit status leaves a process ready to be destroyed.\<close>

lemma destroy_ready_status:
  assumes rdy: "destroy_ready cfg s p" and pr: "hlookup (procs s) p = Some pr"
  shows "destroy_ready cfg (s\<lparr>procs := hupdate (procs s) p (pr\<lparr>p_status := st\<rparr>)\<rparr>) p"
proof -
  let ?pr1 = "pr\<lparr>p_status := st\<rparr>"
  let ?s1 = "s\<lparr>procs := hupdate (procs s) p ?pr1\<rparr>"
  from pr have al: "p < length (procs s)" by (rule hlookup_less)
  then have p1: "hlookup (procs ?s1) p = Some ?pr1" by (simp add: hlookup_hupdate)
  have rv: "rendezvous_ready cfg ?s1 ?pr1 = rendezvous_ready cfg s pr"
    by (rule rendezvous_ready_cong) simp_all
  have fr: "files_ready cfg ?s1 ?pr1 0 = files_ready cfg s pr 0"
    by (rule files_ready_cong) simp_all
  from rdy pr have "p_numthreads pr = 0 \<and> 0 < p_pid pr \<and> p_pid pr \<le> MAX_PROC \<and>
          rendezvous_ready cfg s pr \<and>
          (case ft_lock pr of None \<Rightarrow> False | Some l \<Rightarrow> hlookup (locks s) l = Some False) \<and>
          (case p_name pr of None \<Rightarrow> True | Some n \<Rightarrow> hlookup (names s) n \<noteq> None) \<and>
          files_ready cfg s pr 0"
    by (simp add: destroy_ready_def)
  then show ?thesis
    unfolding destroy_ready_def p1 option.case rv fr by (simp cong: option.case_cong)
qed

text \<open>
  C2. With the semaphore as rendezvous primitive, for a process \<open>p\<close> that is not the
  kernel process and is ready to be destroyed, and for every status \<open>st\<close>: the write of
  \<open>st\<close> into \<open>p_status\<close> and \<open>proc_signal_end\<close> return, the \<open>proc_wait\<close> that follows
  returns \<open>st\<close>, and after it the lookup of the identifier of \<open>p\<close> returns \<open>NULL\<close> and
  the PCB is freed.
\<close>

theorem proc_wait_returns_exit_status:
  assumes sem: "USE_SEMAPHORE_FOR_WAITPID cfg"
    and rdy: "destroy_ready cfg s p" and nk: "kproc s \<noteq> Some p"
    and pr: "hlookup (procs s) p = Some pr"
  shows "\<exists>s1 s2 s3. proc_write p (\<lambda>pr. pr\<lparr>p_status := st\<rparr>) s = Inr s1 \<and>
      proc_signal_end cfg p s1 = Inr s2 \<and>
      proc_wait cfg (Some p) s2 = Inr (st, s3) \<and>
      proc_search_pid cfg (p_pid pr) s3 = Inr None \<and>
      hlookup (procs s3) p = None"
proof -
  define pr1 where "pr1 = pr\<lparr>p_status := st\<rparr>"
  define s1 where "s1 = s\<lparr>procs := hupdate (procs s) p pr1\<rparr>"
  from pr have al: "p < length (procs s)" by (rule hlookup_less)
  from pr have w: "proc_write p (\<lambda>pr. pr\<lparr>p_status := st\<rparr>) s = Inr s1"
    by (simp add: proc_write_ok s1_def pr1_def)
  from al have p1: "hlookup (procs s1) p = Some pr1" by (simp add: s1_def hlookup_hupdate)
  from rdy pr sem obtain m n where m: "p_sem pr = Some m" and n: "hlookup (sems s) m = Some n"
    and lo: "0 < p_pid pr"
    by (auto simp: destroy_ready_def rendezvous_ready_def split: option.splits)
  have g1: "p_sem pr1 = Some m" "p_status pr1 = st" "p_pid pr1 = p_pid pr"
    by (simp_all add: pr1_def m)
  define s2 where "s2 = s1\<lparr>sems := hupdate (sems s1) m (n + 1)\<rparr>"
  from n have ml: "m < length (sems s)" by (rule hlookup_less)
  have n1: "hlookup (sems s1) m = Some n" by (simp add: s1_def n)
  from p1 n1 sem have v: "proc_signal_end cfg p s1 = Inr s2"
    by (simp add: proc_signal_end_def proc_read_def andthen_def sem_V_def g1 s2_def)
  have p2: "hlookup (procs s2) p = Some pr1" by (simp add: s2_def p1)
  from ml have n2: "hlookup (sems s2) m = Some (n + 1)"
    by (simp add: s2_def s1_def hlookup_hupdate)
  from n have restored: "s2\<lparr>sems := hupdate (sems s2) m n\<rparr> = s1"
    by (simp add: s2_def s1_def hupdate_hupdate hupdate_same)
  from n2 have P: "sem_P (Some m) s2 = Inr s1"
    by (simp add: sem_P_def restored)
  from destroy_ready_status [OF rdy pr, of st] have rdy1: "destroy_ready cfg s1 p"
    by (simp add: s1_def pr1_def)
  from nk have nk1: "kproc s1 \<noteq> Some p" by (simp add: s1_def)
  from proc_destroy_ok [OF rdy1 nk1 p1] obtain s3 where
    d: "proc_destroy cfg (Some p) s1 = Inr s3" and fp: "procs s3 = hfree (procs s1) p"
    and sl: "slots (processTable s3) = (slots (processTable s1))(nat (p_pid pr1) := None)"
    by blast
  from nk have nk2: "Some p \<noteq> kproc s2" by (auto simp: s2_def s1_def)
  have wt: "proc_wait cfg (Some p) s2 = Inr (st, s3)"
    unfolding proc_wait_def
    by (simp add: nk2 sem andthen_def proc_read_Inr [THEN iffD2, OF p2]
        proc_read_Inr [THEN iffD2, OF p1] g1 P d)
  from sl have "slots (processTable s3) (nat (p_pid pr)) = None" by (simp add: g1)
  with lo have look: "proc_search_pid cfg (p_pid pr) s3 = Inr None"
    by (simp add: proc_search_pid_def)
  from fp have gone: "hlookup (procs s3) p = None" by (simp add: hlookup_hfree)
  from w v wt look gone show ?thesis by blast
qed

theorem proc_wait_returns_exit_status_witness:
  "USE_SEMAPHORE_FOR_WAITPID example_config \<and> destroy_ready example_config fork_kernel 0 \<and>
   kproc fork_kernel \<noteq> Some 0 \<and>
   (\<exists>s1 s2 s3. proc_write 0 (\<lambda>pr. pr\<lparr>p_status := 42\<rparr>) fork_kernel = Inr s1 \<and>
      proc_signal_end example_config 0 s1 = Inr s2 \<and>
      proc_wait example_config (Some 0) s2 = Inr (42, s3) \<and>
      proc_search_pid example_config 1 s3 = Inr None \<and>
      hlookup (procs s3) 0 = None)"
proof -
  let ?pr = "fresh_proc\<lparr>p_name := Some 0, ft_lock := Some 1, p_pid := 1, p_sem := Some 0,
                         fileTable := (\<lambda>fd. None)(0 := Some 0)\<rparr>"
  have sem: "USE_SEMAPHORE_FOR_WAITPID example_config" by (simp add: example_config_def)
  have nk: "kproc fork_kernel \<noteq> Some 0"
    and pr: "hlookup (procs fork_kernel) 0 = Some ?pr"
    by (simp_all add: fork_kernel_def two_table_kernel_def empty_kernel_def hlookup_def)
  have pid: "p_pid ?pr = 1" by simp
  from proc_wait_returns_exit_status [OF sem destroy_ready_fork_kernel nk pr, of 42]
  have "\<exists>s1 s2 s3. proc_write 0 (\<lambda>pr. pr\<lparr>p_status := 42\<rparr>) fork_kernel = Inr s1 \<and>
      proc_signal_end example_config 0 s1 = Inr s2 \<and>
      proc_wait example_config (Some 0) s2 = Inr (42, s3) \<and>
      proc_search_pid example_config 1 s3 = Inr None \<and>
      hlookup (procs s3) 0 = None"
    unfolding pid .
  with sem destroy_ready_fork_kernel nk show ?thesis by blast
qed

section \<open>Two duplications with reversed tables\<close>

















end
